theory Spec2Isabelle
  imports Main "HOL-Library.Word" "HOL-Library.List_Lexorder" "HOL-Library.Product_Lexorder"
begin

unbundle bit_operations_syntax

text \<open>
  A model of the notes service of \<open>node-crud-test-example\<close>: the identifier class
  \<open>UuidV4\<close>, the entity classes of \<open>note.js\<close>, the table \<open>Note\<close> with its trigger,
  the storage access layer \<open>NoteDao\<close> and the service \<open>NoteService\<close>.  The store is
  passed explicitly and returned updated; what the JavaScript throws is returned
  as a value; the random bytes of a new identifier, the store's clock reading and
  the failures of the connection are arguments.
\<close>

section \<open>Values and errors\<close>

text \<open>
  Everything the JavaScript raises is a value here.  \<open>TypeError\<close> and \<open>RangeError\<close> are
  the built-in errors the argument checks throw; \<open>SqliteError\<close> is what the
  better-sqlite3 connection throws; \<open>DaoError\<close>, \<open>ServiceError\<close> wrap their cause
  (\<open>{ cause: err }\<close>); \<open>EntityNotFoundError\<close> is thrown by the service's existence
  check.
\<close>

datatype error =
    TypeError
  | RangeError
  | SqliteError string
  | DaoError error
  | ServiceError error
  | EntityNotFoundError

type_synonym byte = "8 word"

text \<open>\<open>src/model/uuidv4.js\<close>: the class keeps the string it was given in \<open>#value\<close>.\<close>

datatype UuidV4 = UuidV4 (uuid_value: string)

text \<open>
  \<open>src/model/note.js\<close>: \<open>NoteForCreate\<close>, \<open>NoteForUpdate extends NoteForCreate\<close>,
  \<open>Note extends NoteForUpdate\<close>.  Each class adds its private fields to those of its
  parent; a \<open>Date\<close> is its epoch-millisecond value.
\<close>

record NoteForCreate =
  content :: string

record NoteForUpdate = NoteForCreate +
  note_id :: UuidV4

record Note = NoteForUpdate +
  creationDateTime :: int
  lastUpdatedDateTime :: int

record NoteListPage =
  pageSize :: int
  "notes" :: "Note list"

text \<open>
  The JavaScript values the operations are called with.  \<open>Number n\<close> is a number for
  which \<open>Number.isInteger\<close> holds, \<open>NonInteger\<close> any other number (a fraction, NaN,
  an infinity); \<open>Other\<close> stands for any value of no class modelled here (\<open>{}\<close>,
  \<open>new Set()\<close>, ...).
\<close>

datatype jsval =
    Undefined
  | Null
  | Number int
  | NonInteger
  | String string
  | Date int
  | Array "jsval list"
  | UuidV4_obj UuidV4
  | NoteForCreate_obj NoteForCreate
  | NoteForUpdate_obj NoteForUpdate
  | Note_obj Note
  | Other

datatype jsclass = UuidV4_class | NoteForCreate_class | NoteForUpdate_class | Note_class | Date_class

fun class_of :: "jsval \<Rightarrow> jsclass option" where
  "class_of (UuidV4_obj _) = Some UuidV4_class"
| "class_of (NoteForCreate_obj _) = Some NoteForCreate_class"
| "class_of (NoteForUpdate_obj _) = Some NoteForUpdate_class"
| "class_of (Note_obj _) = Some Note_class"
| "class_of (Date _) = Some Date_class"
| "class_of _ = None"

text \<open>The \<open>extends\<close> clauses of \<open>note.js\<close>.\<close>

fun superclass :: "jsclass \<Rightarrow> jsclass option" where
  "superclass Note_class = Some NoteForUpdate_class"
| "superclass NoteForUpdate_class = Some NoteForCreate_class"
| "superclass _ = None"

fun depth :: "jsclass \<Rightarrow> nat" where
  "depth Note_class = 2"
| "depth NoteForUpdate_class = 1"
| "depth _ = 0"

text \<open>\<open>instanceof\<close> walks the prototype chain of the value's class.\<close>

function subclass_of :: "jsclass \<Rightarrow> jsclass \<Rightarrow> bool" where
  "subclass_of c d =
     (if c = d then True
      else case superclass c of None \<Rightarrow> False | Some p \<Rightarrow> subclass_of p d)"
  by pat_completeness auto
termination
  by (relation "measure (\<lambda>(c, d). depth c)") (auto elim: superclass.elims)

definition instanceof :: "jsval \<Rightarrow> jsclass \<Rightarrow> bool" where
  "instanceof v c = (case class_of v of None \<Rightarrow> False | Some k \<Rightarrow> subclass_of k c)"

text \<open>
  \<open>src/util/validation.js\<close>.  (\<open>isString\<close> also accepts boxed \<open>String\<close> objects,
  which are not among the values modelled here.)
\<close>

definition isDate :: "jsval \<Rightarrow> bool" where
  "isDate v = instanceof v Date_class"

fun isString :: "jsval \<Rightarrow> bool" where
  "isString (String _) = True"
| "isString _ = False"

section \<open>The uuid package (version 9), as used by the repository\<close>

text \<open>
  The repository imports \<open>validate\<close>, \<open>version\<close>, \<open>parse\<close> and \<open>v4\<close> from the npm
  package \<open>uuid\<close> (\<open>^9.0.1\<close> in \<open>package.json\<close>).  They are modelled from that
  release.  Its \<open>regex.js\<close> is
  \<^verbatim>\<open>/^(?:[0-9a-f]{8}-[0-9a-f]{4}-[1-5][0-9a-f]{3}-[89ab][0-9a-f]{3}-[0-9a-f]{12}|00000000-0000-0000-0000-000000000000)$/i\<close>
  with the flag \<open>i\<close>: letters match in either case.
\<close>

definition is_hex_digit :: "char \<Rightarrow> bool" where
  "is_hex_digit c = (c \<in> set ''0123456789abcdefABCDEF'')"

definition all_hex :: "string \<Rightarrow> bool" where
  "all_hex s = list_all is_hex_digit s"

text \<open>\<open>String.prototype.slice(a, b)\<close> for \<open>0 \<le> a \<le> b\<close>.\<close>

definition slice :: "nat \<Rightarrow> nat \<Rightarrow> string \<Rightarrow> string" where
  "slice a b s = take (b - a) (drop a s)"

definition NIL_UUID :: string where
  "NIL_UUID = ''00000000-0000-0000-0000-000000000000''"

definition REGEX_test :: "string \<Rightarrow> bool" where
  "REGEX_test s =
     ((length s = 36
       \<and> all_hex (slice 0 8 s) \<and> slice 8 9 s = ''-''
       \<and> all_hex (slice 9 13 s) \<and> slice 13 14 s = ''-''
       \<and> slice 14 15 s \<in> set [''1'', ''2'', ''3'', ''4'', ''5'']
       \<and> all_hex (slice 15 18 s) \<and> slice 18 19 s = ''-''
       \<and> slice 19 20 s \<in> set [''8'', ''9'', ''a'', ''b'', ''A'', ''B'']
       \<and> all_hex (slice 20 23 s) \<and> slice 23 24 s = ''-''
       \<and> all_hex (slice 24 36 s))
      \<or> s = NIL_UUID)"

text \<open>\<open>validate.js\<close>: \<open>typeof uuid === 'string' && REGEX.test(uuid)\<close>\<close>

fun validate :: "jsval \<Rightarrow> bool" where
  "validate (String s) = REGEX_test s"
| "validate _ = False"

fun index_of :: "'a \<Rightarrow> 'a list \<Rightarrow> nat" where
  "index_of x [] = 0"
| "index_of x (y # ys) = (if x = y then 0 else Suc (index_of x ys))"

definition hex_val :: "char \<Rightarrow> int" where
  "hex_val c =
     (if c \<in> set ''ABCDEF'' then 10 + int (index_of c ''ABCDEF'')
      else int (index_of c ''0123456789abcdef''))"

text \<open>
  \<open>parseInt(s, 16)\<close> on a string of hexadecimal digits, the only strings it is given
  here (every caller has checked \<open>validate\<close> first).
\<close>

definition parseInt16 :: "string \<Rightarrow> int" where
  "parseInt16 s = foldl (\<lambda>v c. 16 * v + hex_val c) 0 s"

text \<open>\<open>version.js\<close>\<close>

fun version :: "jsval \<Rightarrow> error + int" where
  "version (String s) =
     (if \<not> validate (String s) then Inl TypeError else Inr (parseInt16 (slice 14 15 s)))"
| "version _ = Inl TypeError"

text \<open>
  \<open>parse.js\<close>: the five groups are read with \<open>parseInt\<close> and cut into bytes; a store
  into the \<open>Uint8Array\<close> keeps the low eight bits, \<open>v >>> k\<close> and \<open>v / 2^k\<close> followed by
  \<open>& 0xff\<close> are \<open>v div 2^k\<close> followed by the same truncation.
\<close>

definition u8 :: "int \<Rightarrow> byte" where
  "u8 n = word_of_int n"

fun parse :: "jsval \<Rightarrow> error + byte list" where
  "parse (String s) =
     (if \<not> validate (String s) then Inl TypeError
      else
        let v0 = parseInt16 (slice 0 8 s);
            v1 = parseInt16 (slice 9 13 s);
            v2 = parseInt16 (slice 14 18 s);
            v3 = parseInt16 (slice 19 23 s);
            v4 = parseInt16 (slice 24 36 s)
        in Inr [u8 (v0 div 2 ^ 24), u8 (v0 div 2 ^ 16), u8 (v0 div 2 ^ 8), u8 v0,
                u8 (v1 div 2 ^ 8), u8 v1,
                u8 (v2 div 2 ^ 8), u8 v2,
                u8 (v3 div 2 ^ 8), u8 v3,
                u8 (v4 div 2 ^ 40), u8 (v4 div 2 ^ 32), u8 (v4 div 2 ^ 24),
                u8 (v4 div 2 ^ 16), u8 (v4 div 2 ^ 8), u8 v4])"
| "parse _ = Inl TypeError"

text \<open>\<open>stringify.js\<close>: \<open>byteToHex[i] = (i + 0x100).toString(16).slice(1)\<close>\<close>

definition hex_digit :: "nat \<Rightarrow> char" where
  "hex_digit n = ''0123456789abcdef'' ! n"

definition byteToHex :: "byte \<Rightarrow> string" where
  "byteToHex b = [hex_digit (unat b div 16), hex_digit (unat b mod 16)]"

text \<open>
  \<open>byteToHex[arr[i]]\<close> inside a string concatenation: past the end of the array the
  index is \<open>undefined\<close>, so is the table entry, and \<open>+\<close> appends the text
  \<open>undefined\<close>.
\<close>

definition hex_at :: "byte list \<Rightarrow> nat \<Rightarrow> string" where
  "hex_at arr i = (if i < length arr then byteToHex (arr ! i) else ''undefined'')"

definition unsafeStringify :: "byte list \<Rightarrow> string" where
  "unsafeStringify arr =
     hex_at arr 0 @ hex_at arr 1 @ hex_at arr 2 @ hex_at arr 3 @ ''-'' @
     hex_at arr 4 @ hex_at arr 5 @ ''-'' @
     hex_at arr 6 @ hex_at arr 7 @ ''-'' @
     hex_at arr 8 @ hex_at arr 9 @ ''-'' @
     hex_at arr 10 @ hex_at arr 11 @ hex_at arr 12 @ hex_at arr 13 @ hex_at arr 14 @ hex_at arr 15"

text \<open>
  \<open>v4.js\<close> with the random bytes \<open>rnds\<close> given (\<open>options.random\<close>, or what \<open>rng()\<close>
  drew): the version and variant bits are set, then the bytes are rendered.  A store
  past the end of a typed array is ignored, as \<open>list_update\<close> does.
\<close>

definition set_v4_bits :: "byte list \<Rightarrow> byte list" where
  "set_v4_bits rnds =
     (let r1 = (if 6 < length rnds then rnds[6 := (rnds ! 6 AND 0x0f) OR 0x40] else rnds)
      in if 8 < length r1 then r1[8 := (r1 ! 8 AND 0x3f) OR 0x80] else r1)"

definition uuidv4 :: "byte list \<Rightarrow> string" where
  "uuidv4 rnds = unsafeStringify (set_v4_bits rnds)"

section \<open>The identifier class\<close>

text \<open>\<open>src/model/uuidv4.js\<close>, the constructor.\<close>

definition new_UuidV4 :: "jsval \<Rightarrow> error + UuidV4" where
  "new_UuidV4 v =
     (if \<not> validate v \<or> version v \<noteq> Inr 4 then Inl TypeError
      else case v of String s \<Rightarrow> Inr (UuidV4 s) | _ \<Rightarrow> Inl TypeError)"


text \<open>
  The instances of the class are the values the constructor returns: \<open>#value\<close> is
  private and set there only.
\<close>

definition is_UuidV4 :: "UuidV4 \<Rightarrow> bool" where
  "is_UuidV4 u = (new_UuidV4 (String (uuid_value u)) = Inr u)"

section \<open>Entity classes\<close>

text \<open>
  \<open>src/model/note.js\<close>, the constructors.  Each one runs its own checks and its
  parent's (\<open>super(...)\<close>) in the order of the source.
\<close>

definition new_NoteForCreate :: "jsval \<Rightarrow> error + NoteForCreate" where
  "new_NoteForCreate c =
     (if \<not> isString c then Inl TypeError
      else case c of String s \<Rightarrow> Inr \<lparr>content = s\<rparr> | _ \<Rightarrow> Inl TypeError)"

definition new_NoteForUpdate :: "jsval \<Rightarrow> jsval \<Rightarrow> error + NoteForUpdate" where
  "new_NoteForUpdate i c =
     (if \<not> instanceof i UuidV4_class then Inl TypeError
      else case new_NoteForCreate c of
             Inl e \<Rightarrow> Inl e
           | Inr base \<Rightarrow>
               (case i of
                  UuidV4_obj u \<Rightarrow> Inr \<lparr>content = content base, note_id = u\<rparr>
                | _ \<Rightarrow> Inl TypeError))"

definition new_Note :: "jsval \<Rightarrow> jsval \<Rightarrow> jsval \<Rightarrow> jsval \<Rightarrow> error + Note" where
  "new_Note i c created updated =
     (case new_NoteForUpdate i c of
        Inl e \<Rightarrow> Inl e
      | Inr base \<Rightarrow>
          if \<not> isDate created then Inl TypeError
          else if \<not> isDate updated then Inl TypeError
          else (case (created, updated) of
                  (Date t1, Date t2) \<Rightarrow>
                    Inr \<lparr>content = content base, note_id = note_id base,
                         creationDateTime = t1, lastUpdatedDateTime = t2\<rparr>
                | _ \<Rightarrow> Inl TypeError))"

text \<open>The getters \<open>content\<close>, \<open>id\<close> and \<open>value\<close>; a missing property reads \<open>undefined\<close>.\<close>

fun content_of :: "jsval \<Rightarrow> jsval" where
  "content_of (NoteForCreate_obj n) = String (content n)"
| "content_of (NoteForUpdate_obj n) = String (content n)"
| "content_of (Note_obj n) = String (content n)"
| "content_of _ = Undefined"

fun id_of :: "jsval \<Rightarrow> jsval" where
  "id_of (NoteForUpdate_obj n) = UuidV4_obj (note_id n)"
| "id_of (Note_obj n) = UuidV4_obj (note_id n)"
| "id_of _ = Undefined"

fun value_of :: "jsval \<Rightarrow> jsval" where
  "value_of (UuidV4_obj u) = String (uuid_value u)"
| "value_of _ = Undefined"

fun as_Note :: "jsval \<Rightarrow> Note option" where
  "as_Note (Note_obj n) = Some n"
| "as_Note _ = None"

text \<open>
  \<open>NoteListPage\<close>: \<open>Number.isInteger(pageSize)\<close>, \<open>Array.isArray(notes)\<close>, and every
  element an instance of \<open>Note\<close>, copied in order.
\<close>

definition new_NoteListPage :: "jsval \<Rightarrow> jsval \<Rightarrow> error + NoteListPage" where
  "new_NoteListPage ps ns =
     (case ps of
        Number n \<Rightarrow>
          (case ns of
             Array xs \<Rightarrow>
               if list_all (\<lambda>x. instanceof x Note_class) xs
               then Inr \<lparr>pageSize = n, notes = List.map_filter as_Note xs\<rparr>
               else Inl TypeError
           | _ \<Rightarrow> Inl TypeError)
      | _ \<Rightarrow> Inl TypeError)"

section \<open>The store\<close>

text \<open>
  \<open>migrations/000_db_schema_create.sql\<close>: the table \<open>Note\<close> with a BLOB primary key,
  the text and the two integer timestamps.  Both timestamp columns default to
  \<open>CAST((unixepoch('subsec') * 1000) AS INTEGER)\<close>: the store's clock reading in
  milliseconds, which the operations below receive as \<open>now\<close> (one reading per
  statement).
\<close>

record row =
  col_id :: "byte list"
  col_content :: string
  col_creationDateTime :: int
  col_lastUpdatedDateTime :: int

type_synonym database = "row list"

text \<open>
  What the connection raises while it prepares or runs a statement, if anything
  (busy, I/O error, closed handle): the message of the \<open>SqliteError\<close>.
\<close>

type_synonym fault = "string option"

text \<open>\<open>INSERT INTO Note (id, content) VALUES (:id, :content)\<close>; the primary key is unique.\<close>

definition sql_insert :: "database \<Rightarrow> int \<Rightarrow> byte list \<Rightarrow> string \<Rightarrow> string + database" where
  "sql_insert db now i c =
     (if i \<in> set (map col_id db) then Inl ''UNIQUE constraint failed: Note.id''
      else Inr (db @ [\<lparr>col_id = i, col_content = c,
                       col_creationDateTime = now, col_lastUpdatedDateTime = now\<rparr>]))"

text \<open>\<open>SELECT ... FROM Note WHERE id = :id\<close>, read with \<open>get\<close>: the first row or nothing.\<close>

definition sql_select_by_id :: "database \<Rightarrow> byte list \<Rightarrow> row option" where
  "sql_select_by_id db i = find (\<lambda>r. col_id r = i) db"

text \<open>
  \<open>SELECT ... FROM Note [WHERE id > :afterId] ORDER BY creationDateTime DESC, id ASC
  LIMIT :pageSize\<close>.  BLOBs compare bytewise, a proper prefix first: the lexicographic
  order of byte lists.
\<close>

definition page_key :: "row \<Rightarrow> int \<times> byte list" where
  "page_key r = (- col_creationDateTime r, col_id r)"

definition sql_select_page :: "database \<Rightarrow> byte list option \<Rightarrow> int \<Rightarrow> row list" where
  "sql_select_page db afterId limit =
     take (nat limit)
       (sort_key page_key
          (case afterId of None \<Rightarrow> db | Some a \<Rightarrow> filter (\<lambda>r. col_id r > a) db))"

text \<open>
  The trigger \<open>tr_Note_update_lastUpdatedDateTime_au\<close>, \<open>AFTER UPDATE ON Note\<close>:
  \<open>UPDATE Note SET lastUpdatedDateTime = <now> WHERE id = new.id\<close>.
\<close>

definition tr_Note_update_lastUpdatedDateTime_au :: "int \<Rightarrow> byte list \<Rightarrow> database \<Rightarrow> database" where
  "tr_Note_update_lastUpdatedDateTime_au now new_id db =
     map (\<lambda>r. if col_id r = new_id then r\<lparr>col_lastUpdatedDateTime := now\<rparr> else r) db"

text \<open>
  \<open>UPDATE Note SET content = :content WHERE id = :id\<close>: the matching rows get the new
  content, and the trigger runs once for each of them.
\<close>

definition sql_update_content :: "database \<Rightarrow> int \<Rightarrow> byte list \<Rightarrow> string \<Rightarrow> database" where
  "sql_update_content db now i c =
     fold (\<lambda>r. tr_Note_update_lastUpdatedDateTime_au now (col_id r))
       (filter (\<lambda>r. col_id r = i) db)
       (map (\<lambda>r. if col_id r = i then r\<lparr>col_content := c\<rparr> else r) db)"

text \<open>\<open>DELETE FROM Note WHERE id = :id\<close>\<close>

definition sql_delete :: "database \<Rightarrow> byte list \<Rightarrow> database" where
  "sql_delete db i = filter (\<lambda>r. col_id r \<noteq> i) db"


section \<open>The storage access layer\<close>

text \<open>\<open>src/dao/note-dao.js\<close>\<close>

definition MIN_PAGE_SIZE :: int where "MIN_PAGE_SIZE = 1"
definition MAX_PAGE_SIZE :: int where "MAX_PAGE_SIZE = 100"
definition DEFAULT_PAGE_SIZE :: int where "DEFAULT_PAGE_SIZE = 20"

text \<open>
  \<open>#mapRowToNote\<close>: the identifier is rebuilt from the stored bytes with
  \<open>uuidv4({ random: row.id })\<close>.
\<close>

definition mapRowToNote :: "row \<Rightarrow> error + Note" where
  "mapRowToNote r =
     (case new_UuidV4 (String (uuidv4 (col_id r))) of
        Inl e \<Rightarrow> Inl e
      | Inr u \<Rightarrow>
          new_Note (UuidV4_obj u) (String (col_content r))
            (Date (col_creationDateTime r)) (Date (col_lastUpdatedDateTime r)))"

text \<open>\<open>rows.map(NoteDao.#mapRowToNote)\<close>: the first row that throws ends the loop.\<close>

fun map_rows :: "row list \<Rightarrow> error + Note list" where
  "map_rows [] = Inr []"
| "map_rows (r # rs) =
     (case mapRowToNote r of
        Inl e \<Rightarrow> Inl e
      | Inr n \<Rightarrow> (case map_rows rs of Inl e \<Rightarrow> Inl e | Inr ns \<Rightarrow> Inr (n # ns)))"

definition NoteDao_create ::
  "database \<Rightarrow> fault \<Rightarrow> int \<Rightarrow> byte list \<Rightarrow> jsval \<Rightarrow> (error + UuidV4) \<times> database" where
  "NoteDao_create db fault now rnds note =
     (if \<not> instanceof note NoteForCreate_class then (Inl TypeError, db)
      else case new_UuidV4 (String (uuidv4 rnds)) of
        Inl e \<Rightarrow> (Inl e, db)
      | Inr i \<Rightarrow>
          (case fault of
             Some m \<Rightarrow> (Inl (DaoError (SqliteError m)), db)
           | None \<Rightarrow>
               (case parse (String (uuid_value i)) of
                  Inl e \<Rightarrow> (Inl (DaoError e), db)
                | Inr key \<Rightarrow>
                    (case content_of note of
                       String c \<Rightarrow>
                         (case sql_insert db now key c of
                            Inl m \<Rightarrow> (Inl (DaoError (SqliteError m)), db)
                          | Inr db' \<Rightarrow> (Inr i, db'))
                     | _ \<Rightarrow> (Inl (DaoError TypeError), db)))))"

definition NoteDao_findById :: "database \<Rightarrow> fault \<Rightarrow> jsval \<Rightarrow> error + Note option" where
  "NoteDao_findById db fault i =
     (if \<not> instanceof i UuidV4_class then Inl TypeError
      else case fault of
        Some m \<Rightarrow> Inl (DaoError (SqliteError m))
      | None \<Rightarrow>
          (case parse (value_of i) of
             Inl e \<Rightarrow> Inl (DaoError e)
           | Inr key \<Rightarrow>
               (case sql_select_by_id db key of
                  None \<Rightarrow> Inr None
                | Some r \<Rightarrow>
                    (case mapRowToNote r of
                       Inl e \<Rightarrow> Inl (DaoError e)
                     | Inr n \<Rightarrow> Inr (Some n)))))"

text \<open>
  The argument checks that open \<open>NoteDao.list\<close> (and, word for word,
  \<open>NoteService.list\<close>): the page size first, then the cursor.
\<close>

fun pageSize_arg :: "jsval \<Rightarrow> error + int" where
  "pageSize_arg Undefined = Inr DEFAULT_PAGE_SIZE"
| "pageSize_arg (Number n) =
     (if n < MIN_PAGE_SIZE \<or> n > MAX_PAGE_SIZE then Inl RangeError else Inr n)"
| "pageSize_arg _ = Inl TypeError"

definition list_args :: "jsval \<Rightarrow> jsval \<Rightarrow> error + int" where
  "list_args psize afterId =
     (case pageSize_arg psize of
        Inl e \<Rightarrow> Inl e
      | Inr n \<Rightarrow>
          if afterId \<noteq> Undefined \<and> \<not> instanceof afterId UuidV4_class then Inl TypeError
          else Inr n)"

text \<open>
  \<open>NoteDao.list\<close>.  \<open>if (afterId)\<close> holds for an object and not for \<open>undefined\<close>;
  \<open>parseUuid(afterId.value)\<close> stands before the \<open>try\<close>, the query and the mapping of
  its rows inside it.
\<close>

definition NoteDao_list :: "database \<Rightarrow> fault \<Rightarrow> jsval \<Rightarrow> jsval \<Rightarrow> error + NoteListPage" where
  "NoteDao_list db fault psize afterId =
     (case list_args psize afterId of
        Inl e \<Rightarrow> Inl e
      | Inr n \<Rightarrow>
          (case (if afterId = Undefined then Inr None
                 else map_sum (\<lambda>e. e) Some (parse (value_of afterId))) of
             Inl e \<Rightarrow> Inl e
           | Inr cursor \<Rightarrow>
               (case fault of
                  Some m \<Rightarrow> Inl (DaoError (SqliteError m))
                | None \<Rightarrow>
                    (case map_rows (sql_select_page db cursor n) of
                       Inl e \<Rightarrow> Inl (DaoError e)
                     | Inr ns \<Rightarrow>
                         (case new_NoteListPage (Number n) (Array (map Note_obj ns)) of
                            Inl e \<Rightarrow> Inl (DaoError e)
                          | Inr page \<Rightarrow> Inr page)))))"

definition NoteDao_update ::
  "database \<Rightarrow> fault \<Rightarrow> int \<Rightarrow> jsval \<Rightarrow> (error + unit) \<times> database" where
  "NoteDao_update db fault now note =
     (if \<not> instanceof note NoteForUpdate_class then (Inl TypeError, db)
      else case fault of
        Some m \<Rightarrow> (Inl (DaoError (SqliteError m)), db)
      | None \<Rightarrow>
          (case content_of note of
             String c \<Rightarrow>
               (case parse (value_of (id_of note)) of
                  Inl e \<Rightarrow> (Inl (DaoError e), db)
                | Inr key \<Rightarrow> (Inr (), sql_update_content db now key c))
           | _ \<Rightarrow> (Inl (DaoError TypeError), db)))"

definition NoteDao_deleteById :: "database \<Rightarrow> fault \<Rightarrow> jsval \<Rightarrow> (error + unit) \<times> database" where
  "NoteDao_deleteById db fault i =
     (if \<not> instanceof i UuidV4_class then (Inl TypeError, db)
      else case fault of
        Some m \<Rightarrow> (Inl (DaoError (SqliteError m)), db)
      | None \<Rightarrow>
          (case parse (value_of i) of
             Inl e \<Rightarrow> (Inl (DaoError e), db)
           | Inr key \<Rightarrow> (Inr (), sql_delete db key)))"

section \<open>The service layer\<close>

text \<open>\<open>src/service/note-service.js\<close>\<close>

definition NoteService_create ::
  "database \<Rightarrow> fault \<Rightarrow> int \<Rightarrow> byte list \<Rightarrow> jsval \<Rightarrow> (error + UuidV4) \<times> database" where
  "NoteService_create db fault now rnds note =
     (if \<not> instanceof note NoteForCreate_class then (Inl TypeError, db)
      else case NoteDao_create db fault now rnds note of
        (Inl e, db') \<Rightarrow> (Inl (ServiceError e), db')
      | (Inr i, db') \<Rightarrow> (Inr i, db'))"

definition NoteService_findById :: "database \<Rightarrow> fault \<Rightarrow> jsval \<Rightarrow> error + Note option" where
  "NoteService_findById db fault i =
     (if \<not> instanceof i UuidV4_class then Inl TypeError
      else case NoteDao_findById db fault i of
        Inl e \<Rightarrow> Inl (ServiceError e)
      | Inr r \<Rightarrow> Inr r)"

definition NoteService_list :: "database \<Rightarrow> fault \<Rightarrow> jsval \<Rightarrow> jsval \<Rightarrow> error + NoteListPage" where
  "NoteService_list db fault psize afterId =
     (case list_args psize afterId of
        Inl e \<Rightarrow> Inl e
      | Inr n \<Rightarrow>
          (case NoteDao_list db fault (Number n) afterId of
             Inl e \<Rightarrow> Inl (ServiceError e)
           | Inr page \<Rightarrow> Inr page))"

text \<open>
  \<open>databaseConnection.transaction(fn).immediate(arg)\<close> of better-sqlite3:
  \<open>BEGIN IMMEDIATE\<close>, the function, \<open>COMMIT\<close>; when the function or the commit
  throws, \<open>ROLLBACK\<close> restores the store and the error is thrown on.  The faults are
  those of the four statements of one transaction.
\<close>

record tx_faults =
  begin_fault :: fault
  find_fault :: fault
  write_fault :: fault
  commit_fault :: fault

definition transaction_immediate ::
  "tx_faults \<Rightarrow> (database \<Rightarrow> (error + unit) \<times> database) \<Rightarrow> database \<Rightarrow> (error + unit) \<times> database" where
  "transaction_immediate f body db =
     (case begin_fault f of
        Some m \<Rightarrow> (Inl (SqliteError m), db)
      | None \<Rightarrow>
          (case body db of
             (Inl e, _) \<Rightarrow> (Inl e, db)
           | (Inr u, db') \<Rightarrow>
               (case commit_fault f of
                  Some m \<Rightarrow> (Inl (SqliteError m), db)
                | None \<Rightarrow> (Inr u, db'))))"

definition updateIfExists ::
  "tx_faults \<Rightarrow> int \<Rightarrow> jsval \<Rightarrow> database \<Rightarrow> (error + unit) \<times> database" where
  "updateIfExists f now note db =
     (case NoteDao_findById db (find_fault f) (id_of note) of
        Inl e \<Rightarrow> (Inl (ServiceError e), db)
      | Inr None \<Rightarrow> (Inl EntityNotFoundError, db)
      | Inr (Some existingNote) \<Rightarrow>
          (case NoteDao_update db (write_fault f) now note of
             (Inl e, db') \<Rightarrow> (Inl (ServiceError e), db')
           | (Inr u, db') \<Rightarrow> (Inr u, db')))"

definition NoteService_update ::
  "database \<Rightarrow> tx_faults \<Rightarrow> int \<Rightarrow> jsval \<Rightarrow> (error + unit) \<times> database" where
  "NoteService_update db f now note =
     (if \<not> instanceof note NoteForUpdate_class then (Inl TypeError, db)
      else transaction_immediate f (updateIfExists f now note) db)"

definition deleteIfExists ::
  "tx_faults \<Rightarrow> jsval \<Rightarrow> database \<Rightarrow> (error + unit) \<times> database" where
  "deleteIfExists f i db =
     (case NoteDao_findById db (find_fault f) i of
        Inl e \<Rightarrow> (Inl (ServiceError e), db)
      | Inr None \<Rightarrow> (Inl EntityNotFoundError, db)
      | Inr (Some existingNote) \<Rightarrow>
          (case NoteDao_deleteById db (write_fault f) i of
             (Inl e, db') \<Rightarrow> (Inl (ServiceError e), db')
           | (Inr u, db') \<Rightarrow> (Inr u, db')))"

definition NoteService_deleteById ::
  "database \<Rightarrow> tx_faults \<Rightarrow> jsval \<Rightarrow> (error + unit) \<times> database" where
  "NoteService_deleteById db f i =
     (if \<not> instanceof i UuidV4_class then (Inl TypeError, db)
      else transaction_immediate f (deleteIfExists f i) db)"


section \<open>Stores written by the operations\<close>

text \<open>
  The only statement that adds a row is the \<open>INSERT\<close> of \<open>NoteDao.create\<close>, whose
  key is \<open>parse\<close> of a generated identifier: sixteen bytes with the version and
  variant bits set.  The primary key keeps the keys distinct.
\<close>

definition id_ok :: "byte list \<Rightarrow> bool" where
  "id_ok k = (length k = 16 \<and> set_v4_bits k = k)"

definition db_ok :: "database \<Rightarrow> bool" where
  "db_ok db = (distinct (map col_id db) \<and> list_all (\<lambda>r. id_ok (col_id r)) db)"

text \<open>The \<open>Note\<close> that \<open>#mapRowToNote\<close> builds from a row of such a store.\<close>

definition note_of_row :: "row \<Rightarrow> Note" where
  "note_of_row r =
     \<lparr>content = col_content r, note_id = UuidV4 (uuidv4 (col_id r)),
      creationDateTime = col_creationDateTime r,
      lastUpdatedDateTime = col_lastUpdatedDateTime r\<rparr>"

section \<open>The specification's vocabulary\<close>

text \<open>
  The raw bytes of an identifier (what \<open>parse\<close> reads from it; an instance of
  \<open>UuidV4\<close> always parses), those of a note, and the page order in the specification's
  words: creation time descending, identifier bytes ascending among equal creation
  times.
\<close>

definition key_of :: "UuidV4 \<Rightarrow> byte list" where
  "key_of u = (case parse (String (uuid_value u)) of Inr k \<Rightarrow> k | Inl e \<Rightarrow> [])"

definition id_bytes :: "Note \<Rightarrow> byte list" where
  "id_bytes n = key_of (note_id n)"

definition listed_before :: "Note \<Rightarrow> Note \<Rightarrow> bool" where
  "listed_before a b =
     (creationDateTime a > creationDateTime b
      \<or> (creationDateTime a = creationDateTime b \<and> id_bytes a < id_bytes b))"

text \<open>
  The canonical form in the specification's words: lowercase hexadecimal digits in
  groups of 8, 4, 4, 4 and 12 joined by dashes, the version digit \<open>4\<close>, the variant
  digit one of \<open>8\<close>, \<open>9\<close>, \<open>a\<close>, \<open>b\<close>.
\<close>

definition is_lower_hex :: "char \<Rightarrow> bool" where
  "is_lower_hex c = (c \<in> set ''0123456789abcdef'')"

definition canonical_v4 :: "string \<Rightarrow> bool" where
  "canonical_v4 s =
     (length s = 36
      \<and> list_all is_lower_hex (slice 0 8 s) \<and> slice 8 9 s = ''-''
      \<and> list_all is_lower_hex (slice 9 13 s) \<and> slice 13 14 s = ''-''
      \<and> slice 14 15 s = ''4''
      \<and> list_all is_lower_hex (slice 15 18 s) \<and> slice 18 19 s = ''-''
      \<and> slice 19 20 s \<in> set [''8'', ''9'', ''a'', ''b'']
      \<and> list_all is_lower_hex (slice 20 23 s) \<and> slice 23 24 s = ''-''
      \<and> list_all is_lower_hex (slice 24 36 s))"

text \<open>Folding the letters \<open>A\<close> to \<open>F\<close> to lower case.\<close>

definition lower_hex :: "char \<Rightarrow> char" where
  "lower_hex c = (if c \<in> set ''ABCDEF'' then ''abcdef'' ! index_of c ''ABCDEF'' else c)"

section \<open>Sample data\<close>

text \<open>
  Three draws of sixteen random bytes and the store after two notes were created
  from the first two, one millisecond apart.  The first draw renders as
  \<open>109156be-c4fb-41ea-b1b4-efe1671c5836\<close>, the second as
  \<open>6ec0bd7f-11c0-43da-975e-2a8ad9ebae0b\<close> (the identifiers of the repository's
  own tests), the third as \<open>0a0b0c0d-0e0f-4a0b-8c0d-0e0f0a0b0c0d\<close>.
\<close>

definition rnds_a :: "byte list" where
  "rnds_a = [0x10, 0x91, 0x56, 0xbe, 0xc4, 0xfb, 0x41, 0xea,
             0xb1, 0xb4, 0xef, 0xe1, 0x67, 0x1c, 0x58, 0x36]"

definition rnds_b :: "byte list" where
  "rnds_b = [0x6e, 0xc0, 0xbd, 0x7f, 0x11, 0xc0, 0x43, 0xda,
             0x97, 0x5e, 0x2a, 0x8a, 0xd9, 0xeb, 0xae, 0x0b]"

definition rnds_c :: "byte list" where
  "rnds_c = [0x0a, 0x0b, 0x0c, 0x0d, 0x0e, 0x0f, 0x0a, 0x0b,
             0x0c, 0x0d, 0x0e, 0x0f, 0x0a, 0x0b, 0x0c, 0x0d]"

definition id_a :: UuidV4 where "id_a = UuidV4 ''109156be-c4fb-41ea-b1b4-efe1671c5836''"
definition id_b :: UuidV4 where "id_b = UuidV4 ''6ec0bd7f-11c0-43da-975e-2a8ad9ebae0b''"
definition id_c :: UuidV4 where "id_c = UuidV4 ''0a0b0c0d-0e0f-4a0b-8c0d-0e0f0a0b0c0d''"

definition note_a :: Note where
  "note_a = \<lparr>content = ''n0'', note_id = id_a, creationDateTime = 1, lastUpdatedDateTime = 1\<rparr>"

definition no_faults :: tx_faults where
  "no_faults = \<lparr>begin_fault = None, find_fault = None, write_fault = None, commit_fault = None\<rparr>"

definition note_b :: Note where
  "note_b = \<lparr>content = ''n1'', note_id = id_b, creationDateTime = 2, lastUpdatedDateTime = 2\<rparr>"

definition note_c :: Note where
  "note_c = \<lparr>content = ''n1'', note_id = id_c, creationDateTime = 2, lastUpdatedDateTime = 2\<rparr>"

definition note_b3 :: Note where
  "note_b3 = \<lparr>content = ''n2'', note_id = id_b, creationDateTime = 3, lastUpdatedDateTime = 3\<rparr>"

text \<open>The first identifier in capital letters.\<close>

definition upper_a :: string where
  "upper_a = ''109156BE-C4FB-41EA-B1B4-EFE1671C5836''"

text \<open>A version-1 identifier (the one of the repository's test).\<close>

definition uuid_v1 :: string where
  "uuid_v1 = ''d9428888-122b-11e1-b85c-61cd3cbb3210''"

definition one_note :: database where
  "one_note = snd (NoteDao_create [] None 1 rnds_a (NoteForCreate_obj \<lparr>content = ''n0''\<rparr>))"

definition two_notes :: database where
  "two_notes = snd (NoteDao_create one_note None 2 rnds_b (NoteForCreate_obj \<lparr>content = ''n1''\<rparr>))"

text \<open>
  Three notes created one millisecond apart: \<open>n0\<close> with the first draw, \<open>n1\<close> with
  the third (the smallest key), \<open>n2\<close> with the second (the greatest key).
\<close>

definition three_notes :: database where
  "three_notes =
     snd (NoteDao_create
            (snd (NoteDao_create one_note None 2 rnds_c (NoteForCreate_obj \<lparr>content = ''n1''\<rparr>)))
            None 3 rnds_b (NoteForCreate_obj \<lparr>content = ''n2''\<rparr>))"

section \<open>Identifiers generated from sixteen bytes\<close>

text \<open>
  Facts about the uuid package: what \<open>v4\<close> renders from sixteen bytes passes
  \<open>validate\<close>, has version 4, and \<open>parse\<close> reads back the bytes with the version
  and variant bits set.
\<close>

lemma nibble_cases:
  assumes "n < (16::nat)"
    and "P 0" "P 1" "P 2" "P 3" "P 4" "P 5" "P 6" "P 7"
    and "P 8" "P 9" "P 10" "P 11" "P 12" "P 13" "P 14" "P 15"
  shows "P n"
proof -
  have "n \<in> set [0..<16]" using assms(1) by simp
  also have "[0..<16] = [0, 1, 2, 3, 4, 5, 6, 7] @ [8, 9, 10, 11, 12, 13, 14, 15]"
    by code_simp
  finally show ?thesis using assms(2-) by auto
qed

lemma hex_digit_is_hex: "n < 16 \<Longrightarrow> is_hex_digit (hex_digit n)"
  by (erule nibble_cases) (simp_all add: is_hex_digit_def hex_digit_def)

lemma hex_val_hex_digit: "n < 16 \<Longrightarrow> hex_val (hex_digit n) = int n"
  by (erule nibble_cases) (simp_all add: hex_val_def hex_digit_def)

lemma byte_hi_lt: "unat (b :: byte) div 16 < 16"
proof -
  have "unat b < 256" using unsigned_less [of b] by simp
  then show ?thesis by simp
qed

lemma is_hex_hi [simp]: "is_hex_digit (hex_digit (unat (b::byte) div 16))"
  by (simp add: hex_digit_is_hex byte_hi_lt)

lemma is_hex_lo [simp]: "is_hex_digit (hex_digit (unat (b::byte) mod 16))"
  by (simp add: hex_digit_is_hex)

lemma unat_div_drop: "unat (x::byte) div 2 ^ n = unat (drop_bit n x)"
  unfolding unat_drop_bit_eq by (simp add: drop_bit_eq_div)

lemma v4_hi': "drop_bit 4 (((b::byte) AND 0x0f) OR 0x40) = 4"
  by (rule bit_word_eqI) (auto simp: bit_simps)

lemma v4_hi: "unat (((b::byte) AND 0x0f) OR 0x40) div 16 = 4"
  using unat_div_drop [of "(b AND 0x0f) OR 0x40" 4] by (simp add: v4_hi')

lemma v4_var': "drop_bit 6 (((b::byte) AND 0x3f) OR 0x80) = 2"
  by (rule bit_word_eqI) (auto simp: bit_simps)

lemma v4_var: "unat (((b::byte) AND 0x3f) OR 0x80) div 16 \<in> {8,9,10,11}"
proof -
  have "unat ((b AND 0x3f) OR 0x80) div 64 = 2"
    using unat_div_drop [of "(b AND 0x3f) OR 0x80" 6] by (simp add: v4_var')
  then show ?thesis by auto
qed

lemma hex_digit_4: "hex_digit 4 = CHR ''4''"
  by (simp add: hex_digit_def)

lemma variant_char:
  "hex_digit (unat (((b::byte) AND 0x3f) OR 0x80) div 16) = CHR ''8'' \<or>
   (hex_digit (unat ((b AND 0x3f) OR 0x80) div 16) = CHR ''9'' \<or>
   (hex_digit (unat ((b AND 0x3f) OR 0x80) div 16) = CHR ''a'' \<or>
   (hex_digit (unat ((b AND 0x3f) OR 0x80) div 16) = CHR ''b'' \<or> R)))"
  using v4_var [of b] by (auto simp: hex_digit_def)

lemma set_v4_bits_16:
  "set_v4_bits [b0,b1,b2,b3,b4,b5,b6,b7,b8,b9,b10,b11,b12,b13,b14,b15] =
     [b0,b1,b2,b3,b4,b5,(b6 AND 0x0f) OR 0x40,b7,(b8 AND 0x3f) OR 0x80,b9,b10,b11,b12,b13,b14,b15]"
  by (simp add: set_v4_bits_def Let_def numeral_eq_Suc)

lemma unsafeStringify_16:
  "unsafeStringify [b0,b1,b2,b3,b4,b5,b6,b7,b8,b9,b10,b11,b12,b13,b14,b15] =
     byteToHex b0 @ byteToHex b1 @ byteToHex b2 @ byteToHex b3 @ ''-'' @
     byteToHex b4 @ byteToHex b5 @ ''-'' @ byteToHex b6 @ byteToHex b7 @ ''-'' @
     byteToHex b8 @ byteToHex b9 @ ''-'' @
     byteToHex b10 @ byteToHex b11 @ byteToHex b12 @ byteToHex b13 @ byteToHex b14 @ byteToHex b15"
  by (simp add: unsafeStringify_def hex_at_def)

lemma REGEX_test_uuidv4_16:
  "REGEX_test (uuidv4 [b0,b1,b2,b3,b4,b5,b6,b7,b8,b9,b10,b11,b12,b13,b14,b15])"
  unfolding uuidv4_def set_v4_bits_16 unsafeStringify_16
  by (simp add: REGEX_test_def slice_def byteToHex_def all_hex_def v4_hi hex_digit_4 variant_char)

lemma div_2_8: "(x::int) div 2 ^ 8 = x div 256" by simp
lemma div_2_16: "(x::int) div 2 ^ 16 = x div 256 div 256"
  by (simp add: zdiv_zmult2_eq [symmetric])
lemma div_2_24: "(x::int) div 2 ^ 24 = x div 256 div 256 div 256"
  by (simp add: zdiv_zmult2_eq [symmetric])
lemma div_2_32: "(x::int) div 2 ^ 32 = x div 256 div 256 div 256 div 256"
  by (simp add: zdiv_zmult2_eq [symmetric])
lemma div_2_40: "(x::int) div 2 ^ 40 = x div 256 div 256 div 256 div 256 div 256"
  by (simp add: zdiv_zmult2_eq [symmetric])

lemma byte_div: "(256 * a + uint (b::byte)) div 256 = a"
proof -
  have "0 \<le> uint b" "uint b < 256" using uint_lt2p [of b] by simp_all
  then have "uint b div 256 = 0" by simp
  then show ?thesis by simp
qed

lemma u8_low: "u8 (256 * a + uint b) = b"
proof -
  have "(word_of_int (256 * a) :: byte) = 0"
    unfolding word_of_int_eq_0_iff by simp
  then show ?thesis
    unfolding u8_def of_int_add by simp
qed

lemma foldl_pair:
  "foldl (\<lambda>v c. 16 * v + hex_val c) a (byteToHex b @ rest) =
   foldl (\<lambda>v c. 16 * v + hex_val c) (256 * a + uint b) rest"
proof -
  have eq: "16 * int (unat b div 16) + int (unat b mod 16) = uint b"
    by (simp add: zdiv_int zmod_int)
  show ?thesis
    using eq by (simp add: byteToHex_def hex_val_hex_digit byte_hi_lt add.assoc)
qed

lemma length_byteToHex [simp]: "length (byteToHex b) = 2"
  by (simp add: byteToHex_def)


lemma version_uuidv4_16:
  "parseInt16 (slice 14 15 (uuidv4 [b0,b1,b2,b3,b4,b5,b6,b7,b8,b9,b10,b11,b12,b13,b14,b15])) = 4"
  unfolding uuidv4_def set_v4_bits_16 unsafeStringify_16
  by (simp add: slice_def byteToHex_def parseInt16_def v4_hi hex_digit_4 hex_val_def)

lemma parse_uuidv4_16:
  "parse (String (uuidv4 [b0,b1,b2,b3,b4,b5,b6,b7,b8,b9,b10,b11,b12,b13,b14,b15])) =
     Inr (set_v4_bits [b0,b1,b2,b3,b4,b5,b6,b7,b8,b9,b10,b11,b12,b13,b14,b15])"
proof -
  let ?bs = "[b0,b1,b2,b3,b4,b5,b6,b7,b8,b9,b10,b11,b12,b13,b14,b15]"
  let ?f = "\<lambda>v c. 16 * v + hex_val c"
  have valid: "validate (String (uuidv4 ?bs))"
    by (simp add: REGEX_test_uuidv4_16)
  have s0: "parseInt16 (slice 0 8 (uuidv4 ?bs)) =
      256 * (256 * (256 * uint b0 + uint b1) + uint b2) + uint b3"
    unfolding uuidv4_def set_v4_bits_16 unsafeStringify_16 slice_def parseInt16_def
    by (simp add: foldl_pair [where rest = "[]", simplified] foldl_pair)
  have s1: "parseInt16 (slice 9 13 (uuidv4 ?bs)) = 256 * uint b4 + uint b5"
    unfolding uuidv4_def set_v4_bits_16 unsafeStringify_16 slice_def parseInt16_def
    by (simp add: foldl_pair [where rest = "[]", simplified] foldl_pair)
  have s2: "parseInt16 (slice 14 18 (uuidv4 ?bs)) = 256 * uint ((b6 AND 0x0f) OR 0x40) + uint b7"
    unfolding uuidv4_def set_v4_bits_16 unsafeStringify_16 slice_def parseInt16_def
    by (simp add: foldl_pair [where rest = "[]", simplified] foldl_pair)
  have s3: "parseInt16 (slice 19 23 (uuidv4 ?bs)) = 256 * uint ((b8 AND 0x3f) OR 0x80) + uint b9"
    unfolding uuidv4_def set_v4_bits_16 unsafeStringify_16 slice_def parseInt16_def
    by (simp add: foldl_pair [where rest = "[]", simplified] foldl_pair)
  have s4: "parseInt16 (slice 24 36 (uuidv4 ?bs)) =
      256 * (256 * (256 * (256 * (256 * uint b10 + uint b11) + uint b12) + uint b13) + uint b14) + uint b15"
    unfolding uuidv4_def set_v4_bits_16 unsafeStringify_16 slice_def parseInt16_def
    by (simp add: foldl_pair [where rest = "[]", simplified] foldl_pair)
  have u8_top: "\<And>b. u8 (uint b) = b" by (simp add: u8_def)
  show ?thesis
    unfolding parse.simps Let_def s0 s1 s2 s3 s4 set_v4_bits_16
      div_2_8 div_2_16 div_2_24 div_2_32 div_2_40 byte_div u8_low u8_top
    using valid by simp
qed


lemma length16:
  assumes "length (bs :: 'a list) = 16"
  obtains b0 b1 b2 b3 b4 b5 b6 b7 b8 b9 b10 b11 b12 b13 b14 b15 where
     "bs = [b0,b1,b2,b3,b4,b5,b6,b7,b8,b9,b10,b11,b12,b13,b14,b15]"
proof -
  have "bs = [bs!0,bs!1,bs!2,bs!3,bs!4,bs!5,bs!6,bs!7,bs!8,bs!9,bs!10,bs!11,bs!12,bs!13,bs!14,bs!15]"
    using assms by (intro nth_equalityI) (auto simp: nth_Cons' less_Suc_eq numeral_eq_Suc)
  then show ?thesis using that by blast
qed


lemma new_UuidV4_uuidv4:
  assumes "length bs = 16"
  shows "new_UuidV4 (String (uuidv4 bs)) = Inr (UuidV4 (uuidv4 bs))"
proof -
  obtain b0 b1 b2 b3 b4 b5 b6 b7 b8 b9 b10 b11 b12 b13 b14 b15 where
    bs: "bs = [b0,b1,b2,b3,b4,b5,b6,b7,b8,b9,b10,b11,b12,b13,b14,b15]"
    using assms by (rule length16)
  show ?thesis
    unfolding bs new_UuidV4_def
    by (simp add: REGEX_test_uuidv4_16 version_uuidv4_16)
qed

lemma parse_uuidv4:
  assumes "length bs = 16"
  shows "parse (String (uuidv4 bs)) = Inr (set_v4_bits bs)"
proof -
  obtain b0 b1 b2 b3 b4 b5 b6 b7 b8 b9 b10 b11 b12 b13 b14 b15 where
    bs: "bs = [b0,b1,b2,b3,b4,b5,b6,b7,b8,b9,b10,b11,b12,b13,b14,b15]"
    using assms by (rule length16)
  show ?thesis
    unfolding bs by (rule parse_uuidv4_16)
qed

lemma length_set_v4_bits [simp]: "length (set_v4_bits bs) = length bs"
  by (simp add: set_v4_bits_def Let_def)

lemma version_bits_idem: "((((b::byte) AND 0x0f) OR 0x40) AND 0x0f) OR 0x40 = (b AND 0x0f) OR 0x40"
  by (rule bit_word_eqI) (auto simp: bit_simps)

lemma variant_bits_idem: "((((b::byte) AND 0x3f) OR 0x80) AND 0x3f) OR 0x80 = (b AND 0x3f) OR 0x80"
  by (rule bit_word_eqI) (auto simp: bit_simps)

lemma set_v4_bits_idem:
  assumes "length bs = 16"
  shows "set_v4_bits (set_v4_bits bs) = set_v4_bits bs"
proof -
  obtain b0 b1 b2 b3 b4 b5 b6 b7 b8 b9 b10 b11 b12 b13 b14 b15 where
    bs: "bs = [b0,b1,b2,b3,b4,b5,b6,b7,b8,b9,b10,b11,b12,b13,b14,b15]"
    using assms by (rule length16)
  show ?thesis
    unfolding bs set_v4_bits_16 version_bits_idem variant_bits_idem ..
qed


section \<open>Instances, pages and their rows\<close>

lemma instanceof_UuidV4_iff: "instanceof v UuidV4_class \<longleftrightarrow> (\<exists>u. v = UuidV4_obj u)"
  by (cases v) (simp_all add: instanceof_def)

lemma instanceof_Date_iff: "instanceof v Date_class \<longleftrightarrow> (\<exists>t. v = Date t)"
  by (cases v) (simp_all add: instanceof_def)

lemma instanceof_Note_iff: "instanceof v Note_class \<longleftrightarrow> (\<exists>n. v = Note_obj n)"
  by (cases v) (simp_all add: instanceof_def)

lemma instanceof_NoteForUpdate_iff:
  "instanceof v NoteForUpdate_class \<longleftrightarrow> (\<exists>n. v = NoteForUpdate_obj n) \<or> (\<exists>n. v = Note_obj n)"
  by (cases v) (simp_all add: instanceof_def)

lemma instanceof_NoteForCreate_iff:
  "instanceof v NoteForCreate_class \<longleftrightarrow>
     (\<exists>n. v = NoteForCreate_obj n) \<or> (\<exists>n. v = NoteForUpdate_obj n) \<or> (\<exists>n. v = Note_obj n)"
  by (cases v) (simp_all add: instanceof_def)

lemma new_NoteListPage_notes:
  "new_NoteListPage (Number n) (Array (map Note_obj ns)) = Inr \<lparr>pageSize = n, notes = ns\<rparr>"
proof -
  have "List.map_filter as_Note (map Note_obj ns) = ns"
    by (induction ns) (simp_all add: List.map_filter_simps)
  moreover have "list_all (\<lambda>x. instanceof x Note_class) (map Note_obj ns)"
    by (simp add: list_all_iff instanceof_Note_iff)
  ultimately show ?thesis by (simp add: new_NoteListPage_def)
qed

lemma map_rows_length: "map_rows rs = Inr ns \<Longrightarrow> length ns = length rs"
  by (induction rs arbitrary: ns) (auto split: sum.splits)

lemma length_sql_select_page: "length (sql_select_page db c n) \<le> nat n"
  by (simp add: sql_select_page_def)

lemma NoteDao_list_Inr:
  assumes "NoteDao_list db fault psize afterId = Inr page"
  shows "\<exists>n. list_args psize afterId = Inr n \<and> pageSize page = n \<and> length (notes page) \<le> nat n"
  using assms map_rows_length length_sql_select_page
  unfolding NoteDao_list_def
  by (fastforce simp: new_NoteListPage_notes split: sum.splits option.splits if_splits)

lemma list_args_not_integer:
  "psize \<noteq> Undefined \<Longrightarrow> (\<forall>n. psize \<noteq> Number n) \<Longrightarrow> list_args psize afterId = Inl TypeError"
  by (cases psize) (simp_all add: list_args_def)

lemma list_args_out_of_range:
  "n < 1 \<or> 100 < n \<Longrightarrow> list_args (Number n) afterId = Inl RangeError"
  by (auto simp: list_args_def MIN_PAGE_SIZE_def MAX_PAGE_SIZE_def)

lemma list_args_bad_afterId:
  "psize = Undefined \<or> (\<exists>k. psize = Number k \<and> 1 \<le> k \<and> k \<le> 100) \<Longrightarrow>
   afterId \<noteq> Undefined \<Longrightarrow> \<not> instanceof afterId UuidV4_class \<Longrightarrow>
   list_args psize afterId = Inl TypeError"
  by (auto simp: list_args_def MIN_PAGE_SIZE_def MAX_PAGE_SIZE_def)

lemma list_args_bad_afterId_any:
  "afterId \<noteq> Undefined \<and> \<not> instanceof afterId UuidV4_class \<Longrightarrow>
   list_args psize afterId = Inl TypeError \<or> list_args psize afterId = Inl RangeError"
  by (cases psize) (simp_all add: list_args_def)

lemma list_args_default: "list_args Undefined afterId = list_args (Number 20) afterId"
  by (simp add: list_args_def MIN_PAGE_SIZE_def MAX_PAGE_SIZE_def DEFAULT_PAGE_SIZE_def)

lemma list_args_Number_Inr: "list_args (Number n) afterId = Inr k \<Longrightarrow> k = n \<and> 1 \<le> n \<and> n \<le> 100"
  by (auto simp: list_args_def MIN_PAGE_SIZE_def MAX_PAGE_SIZE_def split: if_splits)

lemma list_fails_on_bad_args:
  "list_args psize afterId = Inl e \<Longrightarrow>
   NoteDao_list db fault psize afterId = Inl e \<and> NoteService_list db fault psize afterId = Inl e"
  by (simp add: NoteDao_list_def NoteService_list_def)

lemma NoteService_list_Inr:
  assumes "NoteService_list db fault psize afterId = Inr page"
  shows "\<exists>n. list_args psize afterId = Inr n \<and> pageSize page = n \<and> length (notes page) \<le> nat n"
proof -
  from assms obtain n where n: "list_args psize afterId = Inr n"
    and dao: "NoteDao_list db fault (Number n) afterId = Inr page"
    by (auto simp: NoteService_list_def split: sum.splits)
  from NoteDao_list_Inr [OF dao] list_args_Number_Inr n show ?thesis by fastforce
qed

declare parse.simps [simp del]

lemma mapRowToNote_ok: "id_ok (col_id r) \<Longrightarrow> mapRowToNote r = Inr (note_of_row r)"
  by (simp add: id_ok_def mapRowToNote_def new_UuidV4_uuidv4 new_Note_def new_NoteForUpdate_def
      new_NoteForCreate_def isDate_def instanceof_UuidV4_iff instanceof_Date_iff note_of_row_def)

lemma map_rows_ok: "list_all (\<lambda>r. id_ok (col_id r)) rs \<Longrightarrow> map_rows rs = Inr (map note_of_row rs)"
  by (induction rs) (simp_all add: mapRowToNote_ok)

lemma key_of_uuidv4: "id_ok k \<Longrightarrow> key_of (UuidV4 (uuidv4 k)) = k"
  by (simp add: key_of_def id_ok_def parse_uuidv4)

lemma id_bytes_note_of_row: "id_ok (col_id r) \<Longrightarrow> id_bytes (note_of_row r) = col_id r"
  by (simp add: id_bytes_def note_of_row_def key_of_uuidv4)

lemma creation_note_of_row: "creationDateTime (note_of_row r) = col_creationDateTime r"
  by (simp add: note_of_row_def)

lemma listed_before_rows:
  "id_ok (col_id r) \<Longrightarrow> id_ok (col_id r') \<Longrightarrow>
   listed_before (note_of_row r) (note_of_row r') \<longleftrightarrow> page_key r < page_key r'"
  by (auto simp: listed_before_def id_bytes_note_of_row page_key_def creation_note_of_row)

lemma inj_on_page_key: "inj_on col_id A \<Longrightarrow> inj_on page_key A"
  by (auto simp: inj_on_def page_key_def)

lemma sorted_page:
  assumes "distinct (map col_id rs)"
  shows "sorted_wrt (\<lambda>a b. page_key a < page_key b) (sort_key page_key rs)"
proof -
  have "distinct rs" and "inj_on col_id (set rs)"
    using assms by (simp_all add: distinct_map)
  then have "distinct (map page_key (sort_key page_key rs))"
    by (simp add: distinct_map inj_on_page_key)
  then have "sorted_wrt (<) (map page_key (sort_key page_key rs))"
    by (simp add: strict_sorted_iff)
  then show ?thesis by (simp add: sorted_wrt_map)
qed

lemma sorted_wrt_take_drop:
  assumes "sorted_wrt R xs"
  shows "sorted_wrt R (take k xs)" and "\<forall>x\<in>set (take k xs). \<forall>y\<in>set (drop k xs). R x y"
proof -
  have "sorted_wrt R (take k xs @ drop k xs)" using assms by simp
  then show "sorted_wrt R (take k xs)" and "\<forall>x\<in>set (take k xs). \<forall>y\<in>set (drop k xs). R x y"
    unfolding sorted_wrt_append by blast+
qed

lemma set_minus_take: "set xs - set (take k xs) \<subseteq> set (drop k xs)"
proof -
  have "set xs = set (take k xs) \<union> set (drop k xs)"
    by (metis append_take_drop_id set_append)
  then show ?thesis by blast
qed


lemma page_rows:
  assumes "distinct (map col_id db)"
  defines "F \<equiv> \<lambda>cursor. (case cursor of None \<Rightarrow> db | Some a \<Rightarrow> filter (\<lambda>r. col_id r > a) db)"
  shows "sorted_wrt (\<lambda>a b. page_key a < page_key b) (sql_select_page db cursor n)"
    and "length (sql_select_page db cursor n) = min (nat n) (length (F cursor))"
    and "set (sql_select_page db cursor n) \<subseteq> set (F cursor)"
    and "\<forall>x\<in>set (sql_select_page db cursor n).
           \<forall>y\<in>set (F cursor) - set (sql_select_page db cursor n). page_key x < page_key y"
proof -
  let ?S = "sort_key page_key (F cursor)"
  have rows: "sql_select_page db cursor n = take (nat n) ?S"
    by (simp add: sql_select_page_def F_def)
  have "distinct (map col_id (F cursor))"
    using assms(1) by (cases cursor) (simp_all add: F_def distinct_map_filter)
  then have S: "sorted_wrt (\<lambda>a b. page_key a < page_key b) ?S"
    by (rule sorted_page)
  show "sorted_wrt (\<lambda>a b. page_key a < page_key b) (sql_select_page db cursor n)"
    unfolding rows using S by (rule sorted_wrt_take_drop(1))
  show "length (sql_select_page db cursor n) = min (nat n) (length (F cursor))"
    unfolding rows by simp
  show "set (sql_select_page db cursor n) \<subseteq> set (F cursor)"
    unfolding rows using set_take_subset [of "nat n" ?S] by simp
  have "set (F cursor) - set (take (nat n) ?S) \<subseteq> set (drop (nat n) ?S)"
    using set_minus_take [of ?S "nat n"] by simp
  then show "\<forall>x\<in>set (sql_select_page db cursor n).
           \<forall>y\<in>set (F cursor) - set (sql_select_page db cursor n). page_key x < page_key y"
    unfolding rows using sorted_wrt_take_drop(2) [OF S, of "nat n"] by blast
qed

lemma valid_id_parses:
  assumes "new_UuidV4 (String s) = Inr u"
  shows "uuid_value u = s" and "validate (String s)" and "parse (String s) = Inr (key_of u)"
proof -
  from assms show v: "validate (String s)" and u: "uuid_value u = s"
    by (auto simp: new_UuidV4_def split: if_splits)
  from v obtain k where "parse (String s) = Inr k"
    by (simp add: parse.simps Let_def)
  then show "parse (String s) = Inr (key_of u)"
    by (simp add: key_of_def u)
qed


lemma db_ok_rows: "db_ok db \<Longrightarrow> r \<in> set db \<Longrightarrow> id_ok (col_id r)"
  by (simp add: db_ok_def list_all_iff)

lemma eligible_rows:
  assumes "db_ok db"
  shows "filter (\<lambda>m. \<not> id_bytes m \<le> k) (map note_of_row db) =
         map note_of_row (filter (\<lambda>r. col_id r > k) db)"
proof -
  have "filter (\<lambda>r. \<not> id_bytes (note_of_row r) \<le> k) db = filter (\<lambda>r. col_id r > k) db"
    using assms by (intro filter_cong) (auto simp: id_bytes_note_of_row db_ok_rows)
  then show ?thesis by (simp add: filter_map comp_def)
qed

lemma NoteDao_list_rows:
  assumes ok: "db_ok db" and args: "list_args psize afterId = Inr n"
    and cur: "(if afterId = Undefined then Inr None
               else map_sum (\<lambda>e. e) Some (parse (value_of afterId))) = Inr cursor"
  shows "NoteDao_list db None psize afterId =
           Inr \<lparr>pageSize = n, notes = map note_of_row (sql_select_page db cursor n)\<rparr>"
proof -
  have "set (sql_select_page db cursor n) \<subseteq> set db"
    using page_rows(3) [of db cursor n] ok by (cases cursor) (auto simp: db_ok_def)
  then have "list_all (\<lambda>r. id_ok (col_id r)) (sql_select_page db cursor n)"
    using ok by (auto simp: list_all_iff db_ok_rows)
  then have "map_rows (sql_select_page db cursor n) = Inr (map note_of_row (sql_select_page db cursor n))"
    by (rule map_rows_ok)
  then show ?thesis
    unfolding NoteDao_list_def args cur by (simp add: new_NoteListPage_notes del: map_map)
qed

section \<open>The statements on a store\<close>

lemma select_absent: "k \<notin> col_id ` set db \<Longrightarrow> sql_select_by_id db k = None"
  by (auto simp: sql_select_by_id_def find_None_iff)

lemma select_present:
  "distinct (map col_id db) \<Longrightarrow> r \<in> set db \<Longrightarrow> sql_select_by_id db (col_id r) = Some r"
  unfolding sql_select_by_id_def
  by (induction db) (auto simp: rev_image_eqI)

lemma select_Some: "sql_select_by_id db k = Some r \<Longrightarrow> r \<in> set db \<and> col_id r = k"
  unfolding sql_select_by_id_def by (auto simp: find_Some_iff)

lemma trigger_other [simp]:
  "k \<notin> col_id ` set db \<Longrightarrow> tr_Note_update_lastUpdatedDateTime_au now k db = db"
  by (induction db) (auto simp: tr_Note_update_lastUpdatedDateTime_au_def)

lemma update_absent: "k \<notin> col_id ` set db \<Longrightarrow> sql_update_content db now k c = db"
proof -
  assume a: "k \<notin> col_id ` set db"
  then have "filter (\<lambda>r. col_id r = k) db = []" by (auto simp: filter_empty_conv)
  moreover have "map (\<lambda>r. if col_id r = k then r\<lparr>col_content := c\<rparr> else r) db = db"
    using a by (intro map_idI) auto
  ultimately show ?thesis by (simp add: sql_update_content_def)
qed

text \<open>With distinct keys the statement changes one row and the trigger runs once.\<close>

lemma update_present:
  assumes "distinct (map col_id db)" and "k \<in> col_id ` set db"
  shows "sql_update_content db now k c =
     map (\<lambda>r. if col_id r = k then r\<lparr>col_content := c, col_lastUpdatedDateTime := now\<rparr> else r) db"
proof -
  from assms obtain r where r: "r \<in> set db" "col_id r = k" by auto
  have "filter (\<lambda>r. col_id r = k) db = [r]"
    using assms(1) r
  proof (induction db)
    case Nil then show ?case by simp
  next
    case (Cons a db)
    show ?case
    proof (cases "a = r")
      case True
      with Cons.prems have "\<forall>x\<in>set db. col_id x \<noteq> k" by (auto simp: rev_image_eqI)
      then have "filter (\<lambda>r. col_id r = k) db = []" by (auto simp: filter_empty_conv)
      with True Cons.prems show ?thesis by simp
    next
      case False
      with Cons.prems have "r \<in> set db" "col_id a \<noteq> k" by (auto simp: rev_image_eqI)
      with Cons show ?thesis by simp
    qed
  qed
  then show ?thesis
    using r by (simp add: sql_update_content_def tr_Note_update_lastUpdatedDateTime_au_def comp_def)
qed

lemma delete_absent: "k \<notin> col_id ` set (sql_delete db k)"
  by (auto simp: sql_delete_def)

lemma delete_noop: "k \<notin> col_id ` set db \<Longrightarrow> sql_delete db k = db"
  by (auto simp: sql_delete_def filter_id_conv)

lemma db_ok_empty: "db_ok []"
  by (simp add: db_ok_def)

lemma db_ok_insert:
  "db_ok db \<Longrightarrow> id_ok k \<Longrightarrow> sql_insert db now k c = Inr db' \<Longrightarrow> db_ok db'"
  by (auto simp: db_ok_def sql_insert_def split: if_splits)

lemma db_ok_update: "db_ok db \<Longrightarrow> db_ok (sql_update_content db now k c)"
proof (cases "k \<in> col_id ` set db")
  case True
  assume ok: "db_ok db"
  have ids: "map col_id (sql_update_content db now k c) = map col_id db"
    using ok True by (simp add: update_present db_ok_def comp_def)
  show ?thesis
    using ok ids unfolding db_ok_def list_all_iff
    by (metis (no_types, lifting) image_iff list.set_map)
next
  case False
  assume "db_ok db"
  with False show ?thesis by (simp add: update_absent)
qed

lemma db_ok_delete: "db_ok db \<Longrightarrow> db_ok (sql_delete db k)"
  by (auto simp: db_ok_def sql_delete_def distinct_map_filter list_all_iff)

lemma id_ok_generated: "length rnds = 16 \<Longrightarrow> id_ok (set_v4_bits rnds)"
  by (simp add: id_ok_def set_v4_bits_idem)


section \<open>The identifier constructor\<close>

lemma slice_map: "slice a b (map f s) = map f (slice a b s)"
  by (simp add: slice_def take_map drop_map)

lemma slice_one: "a < length s \<Longrightarrow> slice a (Suc a) s = [s ! a]"
  by (simp add: slice_def take_Suc_conv_app_nth [of 0, simplified] hd_drop_conv_nth take_Suc)

lemma lower_hex_is_lower: "is_lower_hex (lower_hex c) \<longleftrightarrow> is_hex_digit c"
  by (auto simp: is_lower_hex_def is_hex_digit_def lower_hex_def)

lemma lower_hex_fixed:
  "lower_hex c = CHR ''-'' \<longleftrightarrow> c = CHR ''-''"
  "lower_hex c = CHR ''4'' \<longleftrightarrow> c = CHR ''4''"
  by (auto simp: lower_hex_def)

lemma lower_hex_variant:
  "lower_hex c \<in> set ''89ab'' \<longleftrightarrow> c \<in> set ''89abAB''"
  by (auto simp: lower_hex_def)

lemma version_digit: "c \<in> set ''12345'' \<Longrightarrow> hex_val c = 4 \<longleftrightarrow> c = CHR ''4''"
  by (auto simp: hex_val_def)


lemma all_lower_hex_slice:
  "list_all is_lower_hex (slice a b (map lower_hex s)) = all_hex (slice a b s)"
  by (simp add: slice_map all_hex_def list_all_iff lower_hex_is_lower)

lemma NIL_UUID_version: "parseInt16 (slice 14 15 NIL_UUID) = 0"
  by (simp add: NIL_UUID_def slice_def parseInt16_def hex_val_def)

lemma version_of_digit: "parseInt16 [c] = hex_val c"
  by (simp add: parseInt16_def)

lemma accepted_iff_canonical:
  "REGEX_test s \<and> parseInt16 (slice 14 15 s) = 4 \<longleftrightarrow> canonical_v4 (map lower_hex s)"
proof (cases "length s = 36")
  case False
  then have "s \<noteq> NIL_UUID" by (auto simp: NIL_UUID_def)
  with False show ?thesis by (simp add: REGEX_test_def canonical_v4_def)
next
  case len: True
  have one: "slice 8 9 s = [s ! 8]" "slice 13 14 s = [s ! 13]" "slice 14 15 s = [s ! 14]"
    "slice 18 19 s = [s ! 18]" "slice 19 20 s = [s ! 19]" "slice 23 24 s = [s ! 23]"
    using len slice_one [of 8 s] slice_one [of 13 s] slice_one [of 14 s]
      slice_one [of 18 s] slice_one [of 19 s] slice_one [of 23 s]
    by simp_all
  have variant: "[lower_hex (s ! 19)] \<in> set [''8'', ''9'', ''a'', ''b''] \<longleftrightarrow>
      [s ! 19] \<in> set [''8'', ''9'', ''a'', ''b'', ''A'', ''B'']"
    using lower_hex_variant [of "s ! 19"] by simp
  have ver: "[s ! 14] \<in> set [''1'', ''2'', ''3'', ''4'', ''5''] \<and> hex_val (s ! 14) = 4 \<longleftrightarrow>
      s ! 14 = CHR ''4''"
    using version_digit [of "s ! 14"] by (auto simp: hex_val_def)
  have nil: "\<not> (s = NIL_UUID \<and> parseInt16 (slice 14 15 s) = 4)"
    using NIL_UUID_version by auto
  show ?thesis
    unfolding REGEX_test_def canonical_v4_def all_lower_hex_slice
    using nil ver variant
    by (simp add: slice_map one len version_of_digit lower_hex_fixed) blast
qed


lemma canonical_accepted:
  assumes "canonical_v4 s"
  shows "REGEX_test s \<and> parseInt16 (slice 14 15 s) = 4"
proof -
  have "is_lower_hex c \<Longrightarrow> is_hex_digit c" for c
    by (auto simp: is_lower_hex_def is_hex_digit_def)
  then have "list_all is_lower_hex xs \<Longrightarrow> all_hex xs" for xs
    by (auto simp: all_hex_def list_all_iff)
  moreover have "parseInt16 ''4'' = 4"
    by (simp add: parseInt16_def hex_val_def)
  ultimately show ?thesis
    using assms by (auto simp: canonical_v4_def REGEX_test_def)
qed

text \<open>
  C7, as stated, fails: the identifier of the sample written in capital letters is
  not in the canonical lowercase form, and the constructor accepts it.
\<close>

theorem uppercase_identifier_accepted:
  "new_UuidV4 (String upper_a) = Inr (UuidV4 upper_a) \<and> \<not> canonical_v4 upper_a"
  by code_simp

text \<open>
  C7, amended.  Construction from a string succeeds if and only if the string, with
  the letters \<open>A\<close> to \<open>F\<close> folded to lower case, is a canonical dashed hexadecimal
  identifier of version 4 (the package's pattern matches letters in either case);
  every other string, and every value that is not a string, gives a \<open>TypeError\<close>.
  In particular every canonical lowercase identifier is accepted.  The identifier
  keeps the string as it was given, and two identifiers are equal if and only if
  their strings are equal.
\<close>

theorem new_UuidV4_accepts_either_case:
  "new_UuidV4 (String s) =
     (if canonical_v4 (map lower_hex s) then Inr (UuidV4 s) else Inl TypeError)
   \<and> (canonical_v4 s \<longrightarrow> new_UuidV4 (String s) = Inr (UuidV4 s))
   \<and> (\<not> isString v \<longrightarrow> new_UuidV4 v = Inl TypeError)
   \<and> ((a = b) = (uuid_value a = uuid_value b))"
proof -
  have run: "new_UuidV4 (String s) =
     (if REGEX_test s \<and> parseInt16 (slice 14 15 s) = 4 then Inr (UuidV4 s) else Inl TypeError)"
    by (auto simp: new_UuidV4_def)
  have "\<not> isString v \<Longrightarrow> new_UuidV4 v = Inl TypeError"
    by (cases v) (simp_all add: new_UuidV4_def)
  moreover have "(a = b) = (uuid_value a = uuid_value b)"
    by (cases a; cases b) simp
  ultimately show ?thesis
    using run accepted_iff_canonical [of s] canonical_accepted [of s] by simp
qed

theorem new_UuidV4_accepts_either_case_witness:
  "canonical_v4 (uuid_value id_a)
   \<and> new_UuidV4 (String (uuid_value id_a)) = Inr id_a
   \<and> new_UuidV4 (String upper_a) = Inr (UuidV4 upper_a)
   \<and> new_UuidV4 (String uuid_v1) = Inl TypeError
   \<and> new_UuidV4 Undefined = Inl TypeError
   \<and> UuidV4 upper_a \<noteq> id_a \<and> key_of (UuidV4 upper_a) = key_of id_a"
proof -
  have facts: "canonical_v4 (uuid_value id_a)" "canonical_v4 (map lower_hex upper_a)"
    "\<not> canonical_v4 (map lower_hex uuid_v1)"
    "uuid_value (UuidV4 upper_a) \<noteq> uuid_value id_a" "key_of (UuidV4 upper_a) = key_of id_a"
    "UuidV4 (uuid_value id_a) = id_a" "\<not> isString Undefined"
    by code_simp+
  from new_UuidV4_accepts_either_case [of "uuid_value id_a" Undefined "UuidV4 upper_a" id_a]
  have "canonical_v4 (uuid_value id_a) \<longrightarrow>
          new_UuidV4 (String (uuid_value id_a)) = Inr (UuidV4 (uuid_value id_a))"
    and "\<not> isString Undefined \<longrightarrow> new_UuidV4 Undefined = Inl TypeError"
    and "(UuidV4 upper_a = id_a) = (uuid_value (UuidV4 upper_a) = uuid_value id_a)"
    by blast+
  moreover from new_UuidV4_accepts_either_case [of upper_a Undefined id_a id_a]
  have "new_UuidV4 (String upper_a) =
     (if canonical_v4 (map lower_hex upper_a) then Inr (UuidV4 upper_a) else Inl TypeError)"
    by blast
  moreover from new_UuidV4_accepts_either_case [of uuid_v1 Undefined id_a id_a]
  have "new_UuidV4 (String uuid_v1) =
     (if canonical_v4 (map lower_hex uuid_v1) then Inr (UuidV4 uuid_v1) else Inl TypeError)"
    by blast
  ultimately show ?thesis using facts by simp
qed

section \<open>The operations on single notes\<close>

lemma is_UuidV4_parse: "is_UuidV4 u \<Longrightarrow> parse (String (uuid_value u)) = Inr (key_of u)"
  unfolding is_UuidV4_def by (rule valid_id_parses(3))

lemma findById_run:
  assumes "is_UuidV4 u"
  shows "NoteDao_findById db None (UuidV4_obj u) =
     (case sql_select_by_id db (key_of u) of
        None \<Rightarrow> Inr None
      | Some r \<Rightarrow> (case mapRowToNote r of Inl e \<Rightarrow> Inl (DaoError e) | Inr n \<Rightarrow> Inr (Some n)))"
  by (simp add: NoteDao_findById_def instanceof_UuidV4_iff is_UuidV4_parse [OF assms])

lemma findById_fault:
  "NoteDao_findById db (Some m) (UuidV4_obj u) = Inl (DaoError (SqliteError m))"
  by (simp add: NoteDao_findById_def instanceof_UuidV4_iff)

lemma findById_absent_run:
  "is_UuidV4 u \<Longrightarrow> key_of u \<notin> col_id ` set db \<Longrightarrow>
   NoteDao_findById db None (UuidV4_obj u) = Inr None"
  by (simp add: findById_run select_absent)

lemma findById_present_run:
  assumes "db_ok db" "is_UuidV4 u" "r \<in> set db" "col_id r = key_of u"
  shows "NoteDao_findById db None (UuidV4_obj u) = Inr (Some (note_of_row r))"
proof -
  have "sql_select_by_id db (key_of u) = Some r"
    using assms select_present [of db r] by (simp add: db_ok_def)
  moreover have "mapRowToNote r = Inr (note_of_row r)"
    using db_ok_rows [OF assms(1) assms(3)] by (rule mapRowToNote_ok)
  ultimately show ?thesis using assms(2) by (simp add: findById_run)
qed

lemma findById_total:
  assumes "db_ok db" "is_UuidV4 u"
  shows "NoteDao_findById db None (UuidV4_obj u) = Inr None \<and> key_of u \<notin> col_id ` set db
       \<or> (\<exists>r\<in>set db. col_id r = key_of u \<and>
             NoteDao_findById db None (UuidV4_obj u) = Inr (Some (note_of_row r)))"
proof (cases "key_of u \<in> col_id ` set db")
  case True
  then obtain r where "r \<in> set db" "col_id r = key_of u" by auto
  with assms findById_present_run show ?thesis by blast
next
  case False
  with assms findById_absent_run show ?thesis by blast
qed

lemma deleteById_run:
  "is_UuidV4 u \<Longrightarrow> NoteDao_deleteById db None (UuidV4_obj u) = (Inr (), sql_delete db (key_of u))"
  by (simp add: NoteDao_deleteById_def instanceof_UuidV4_iff is_UuidV4_parse)

text \<open>
  C8.  On a store written by the operations, for every instance \<open>u\<close> of \<open>UuidV4\<close>:
  when no row has its key, \<open>findById\<close> (storage layer and service) returns \<open>null\<close>
  and raises nothing; this is so after the row was deleted; an error comes out of
  \<open>findById\<close> only when the connection fails, and it is then the \<open>DaoError\<close> whose
  cause is the connection's error (the service wraps that in a \<open>ServiceError\<close>).
\<close>

theorem findById_absent_is_null:
  assumes ok: "db_ok db" and valid: "is_UuidV4 u"
  shows "(key_of u \<notin> col_id ` set db \<longrightarrow>
            NoteDao_findById db None (UuidV4_obj u) = Inr None
          \<and> NoteService_findById db None (UuidV4_obj u) = Inr None)
       \<and> NoteDao_findById (snd (NoteDao_deleteById db None (UuidV4_obj u))) None (UuidV4_obj u) = Inr None
       \<and> (\<forall>e. NoteDao_findById db fault (UuidV4_obj u) = Inl e \<longrightarrow>
             (\<exists>m. fault = Some m \<and> e = DaoError (SqliteError m)))
       \<and> (\<forall>m. NoteDao_findById db (Some m) (UuidV4_obj u) = Inl (DaoError (SqliteError m))
             \<and> NoteService_findById db (Some m) (UuidV4_obj u) =
                 Inl (ServiceError (DaoError (SqliteError m))))"
proof (intro conjI impI allI)
  assume absent: "key_of u \<notin> col_id ` set db"
  with valid show dao: "NoteDao_findById db None (UuidV4_obj u) = Inr None"
    by (rule findById_absent_run)
  then show "NoteService_findById db None (UuidV4_obj u) = Inr None"
    by (simp add: NoteService_findById_def instanceof_UuidV4_iff)
next
  show "NoteDao_findById (snd (NoteDao_deleteById db None (UuidV4_obj u))) None (UuidV4_obj u) = Inr None"
    using valid delete_absent [of "key_of u" db]
    by (simp add: deleteById_run findById_absent_run)
next
  fix e assume e: "NoteDao_findById db fault (UuidV4_obj u) = Inl e"
  show "\<exists>m. fault = Some m \<and> e = DaoError (SqliteError m)"
  proof (cases fault)
    case None
    with findById_total [OF ok valid] e show ?thesis by auto
  next
    case (Some m)
    with e show ?thesis by (simp add: findById_fault)
  qed
next
  fix m
  show "NoteDao_findById db (Some m) (UuidV4_obj u) = Inl (DaoError (SqliteError m))"
    by (rule findById_fault)
  then show "NoteService_findById db (Some m) (UuidV4_obj u) =
                 Inl (ServiceError (DaoError (SqliteError m)))"
    by (simp add: NoteService_findById_def instanceof_UuidV4_iff)
qed

theorem findById_absent_is_null_witness:
  "db_ok two_notes \<and> is_UuidV4 id_c
   \<and> NoteDao_findById two_notes None (UuidV4_obj id_c) = Inr None
   \<and> NoteService_findById two_notes None (UuidV4_obj id_c) = Inr None
   \<and> NoteDao_findById two_notes (Some ''disk I/O error'') (UuidV4_obj id_c) =
       Inl (DaoError (SqliteError ''disk I/O error''))"
proof -
  have ok: "db_ok two_notes" by code_simp
  have valid: "is_UuidV4 id_c" by code_simp
  have absent: "key_of id_c \<notin> col_id ` set two_notes" by code_simp
  from findById_absent_is_null [OF ok valid, of None] absent ok valid
  show ?thesis by simp
qed


lemma NoteForUpdate_fields:
  assumes "instanceof note NoteForUpdate_class"
  obtains c u where "content_of note = String c" and "id_of note = UuidV4_obj u"
  using assms unfolding instanceof_NoteForUpdate_iff by auto

lemma update_run:
  assumes "instanceof note NoteForUpdate_class" and "id_of note = UuidV4_obj u"
    and "content_of note = String c" and "is_UuidV4 u"
  shows "NoteDao_update db None now note = (Inr (), sql_update_content db now (key_of u) c)"
  using assms by (simp add: NoteDao_update_def is_UuidV4_parse)

text \<open>
  C9.  \<open>NoteDao.update\<close>, given an instance of \<open>NoteForUpdate\<close> whose identifier has no
  row, and a connection that does not fail, raises nothing and returns the store as
  it was: no row is added, none is changed.
\<close>

theorem dao_update_absent_noop:
  assumes "instanceof note NoteForUpdate_class" and "id_of note = UuidV4_obj u"
    and "is_UuidV4 u" and "key_of u \<notin> col_id ` set db"
  shows "NoteDao_update db None now note = (Inr (), db)"
proof -
  from assms(1) obtain c where "content_of note = String c"
    by (rule NoteForUpdate_fields)
  with assms show ?thesis by (simp add: update_run update_absent)
qed

theorem dao_update_absent_noop_witness:
  "NoteDao_update two_notes None 5 (NoteForUpdate_obj \<lparr>content = ''x'', note_id = id_c\<rparr>) =
     (Inr (), two_notes)"
proof -
  have "instanceof (NoteForUpdate_obj \<lparr>content = ''x'', note_id = id_c\<rparr>) NoteForUpdate_class"
    by code_simp
  moreover have "is_UuidV4 id_c" by code_simp
  moreover have "key_of id_c \<notin> col_id ` set two_notes" by code_simp
  ultimately show ?thesis
    by (intro dao_update_absent_noop [where u = id_c]) simp_all
qed

lemma updateIfExists_absent:
  assumes "id_of note = UuidV4_obj u" "is_UuidV4 u" "key_of u \<notin> col_id ` set db"
    "find_fault f = None"
  shows "updateIfExists f now note db = (Inl EntityNotFoundError, db)"
  using assms by (simp add: updateIfExists_def findById_absent_run)

lemma deleteIfExists_absent:
  assumes "is_UuidV4 u" "key_of u \<notin> col_id ` set db" "find_fault f = None"
  shows "deleteIfExists f (UuidV4_obj u) db = (Inl EntityNotFoundError, db)"
  using assms by (simp add: deleteIfExists_def findById_absent_run)

lemma service_delete_success:
  assumes "NoteService_deleteById db0 f0 (UuidV4_obj u) = (Inr (), db)" and "is_UuidV4 u"
  shows "db = sql_delete db0 (key_of u)"
  using assms
  by (auto simp: NoteService_deleteById_def transaction_immediate_def deleteIfExists_def
      NoteDao_deleteById_def instanceof_UuidV4_iff is_UuidV4_parse
      split: option.splits sum.splits prod.splits if_splits)

text \<open>
  C3.  When the transaction can begin and the lookup does not fail, the service's
  \<open>update\<close> and \<open>deleteById\<close> of an identifier that has no row raise
  \<open>EntityNotFoundError\<close> and leave the store as it was; and after a \<open>deleteById\<close> of
  an identifier has succeeded, a second one raises \<open>EntityNotFoundError\<close> and leaves
  the store as it was.
\<close>

theorem service_mutation_of_absent_id:
  assumes valid: "is_UuidV4 u" and f: "begin_fault f = None" "find_fault f = None"
    and inst: "instanceof note NoteForUpdate_class" "id_of note = UuidV4_obj u"
  shows "(key_of u \<notin> col_id ` set db \<longrightarrow>
            NoteService_update db f now note = (Inl EntityNotFoundError, db)
          \<and> NoteService_deleteById db f (UuidV4_obj u) = (Inl EntityNotFoundError, db))
       \<and> (\<forall>db0 f0. NoteService_deleteById db0 f0 (UuidV4_obj u) = (Inr (), db) \<longrightarrow>
            NoteService_deleteById db f (UuidV4_obj u) = (Inl EntityNotFoundError, db))"
proof -
  have absent: "NoteService_update db f now note = (Inl EntityNotFoundError, db)
          \<and> NoteService_deleteById db f (UuidV4_obj u) = (Inl EntityNotFoundError, db)"
    if "key_of u \<notin> col_id ` set db" for db
    using that valid f inst
    by (simp add: NoteService_update_def NoteService_deleteById_def transaction_immediate_def
        updateIfExists_absent deleteIfExists_absent instanceof_UuidV4_iff)
  have "NoteService_deleteById db f (UuidV4_obj u) = (Inl EntityNotFoundError, db)"
    if "NoteService_deleteById db0 f0 (UuidV4_obj u) = (Inr (), db)" for db0 f0
  proof -
    from service_delete_success [OF that valid] have "key_of u \<notin> col_id ` set db"
      using delete_absent [of "key_of u" db0] by simp
    then show ?thesis using absent by blast
  qed
  with absent show ?thesis by blast
qed

theorem service_mutation_of_absent_id_witness:
  "NoteService_update two_notes no_faults 5 (NoteForUpdate_obj \<lparr>content = ''x'', note_id = id_c\<rparr>) =
     (Inl EntityNotFoundError, two_notes)
   \<and> NoteService_deleteById two_notes no_faults (UuidV4_obj id_c) = (Inl EntityNotFoundError, two_notes)
   \<and> NoteService_deleteById two_notes no_faults (UuidV4_obj id_b) = (Inr (), one_note)
   \<and> NoteService_deleteById one_note no_faults (UuidV4_obj id_b) = (Inl EntityNotFoundError, one_note)"
proof -
  have inst: "instanceof (NoteForUpdate_obj \<lparr>content = ''x'', note_id = id_c\<rparr>) NoteForUpdate_class"
    "instanceof (NoteForUpdate_obj \<lparr>content = ''x'', note_id = id_b\<rparr>) NoteForUpdate_class"
    by code_simp+
  have valid: "is_UuidV4 id_c" "is_UuidV4 id_b" by code_simp+
  have absent: "key_of id_c \<notin> col_id ` set two_notes" by code_simp
  have f: "begin_fault no_faults = None" "find_fault no_faults = None"
    by (simp_all add: no_faults_def)
  have first: "NoteService_deleteById two_notes no_faults (UuidV4_obj id_b) = (Inr (), one_note)"
    by code_simp
  from service_mutation_of_absent_id [OF valid(1) f inst(1), of two_notes 5] absent
    service_mutation_of_absent_id [OF valid(2) f inst(2), of one_note 5] first
  show ?thesis by auto
qed

lemma transaction_not_TypeError:
  assumes "\<And>d. fst (body d) \<noteq> Inl TypeError"
  shows "fst (transaction_immediate f body db) \<noteq> Inl TypeError"
  using assms [of db]
  by (auto simp: transaction_immediate_def split: option.splits sum.splits prod.splits)

text \<open>
  C10.  Every \<open>Note\<close> is an instance of \<open>NoteForUpdate\<close> and of \<open>NoteForCreate\<close>
  (and every instance of \<open>Note\<close> is one of \<open>NoteForUpdate\<close>, every instance of
  \<open>NoteForUpdate\<close> one of \<open>NoteForCreate\<close>), so \<open>update\<close> and \<open>create\<close>, in the
  storage layer and in the service, never answer a \<open>Note\<close> with the \<open>TypeError\<close> of
  their argument check (for \<open>create\<close>, given the sixteen random bytes of the
  generator).  This holds for every \<open>Note\<close>, those \<open>findById\<close> returns among them.
\<close>

theorem note_passes_type_checks:
  "instanceof (Note_obj n) Note_class
   \<and> instanceof (Note_obj n) NoteForUpdate_class
   \<and> instanceof (Note_obj n) NoteForCreate_class
   \<and> fst (NoteDao_update db fault now (Note_obj n)) \<noteq> Inl TypeError
   \<and> fst (NoteService_update db faults now (Note_obj n)) \<noteq> Inl TypeError
   \<and> (length rnds = 16 \<longrightarrow>
        fst (NoteDao_create db fault now rnds (Note_obj n)) \<noteq> Inl TypeError
      \<and> fst (NoteService_create db fault now rnds (Note_obj n)) \<noteq> Inl TypeError)
   \<and> (\<forall>v. (instanceof v Note_class \<longrightarrow> instanceof v NoteForUpdate_class)
          \<and> (instanceof v NoteForUpdate_class \<longrightarrow> instanceof v NoteForCreate_class))"
proof -
  have inst: "instanceof (Note_obj n) Note_class" "instanceof (Note_obj n) NoteForUpdate_class"
    "instanceof (Note_obj n) NoteForCreate_class"
    by (simp_all add: instanceof_Note_iff instanceof_NoteForUpdate_iff instanceof_NoteForCreate_iff)
  have upd: "fst (NoteDao_update d fl now (Note_obj n)) \<noteq> Inl TypeError" for d fl
    using inst by (auto simp: NoteDao_update_def split: option.splits sum.splits)
  have "fst (updateIfExists faults now (Note_obj n) d) \<noteq> Inl TypeError" for d
    by (auto simp: updateIfExists_def split: option.splits sum.splits prod.splits)
  then have svc: "fst (NoteService_update db faults now (Note_obj n)) \<noteq> Inl TypeError"
    using inst by (simp add: NoteService_update_def transaction_not_TypeError)
  have cre: "fst (NoteDao_create db fault now rnds (Note_obj n)) \<noteq> Inl TypeError"
    if "length rnds = 16"
    using inst that
    by (auto simp: NoteDao_create_def new_UuidV4_uuidv4 split: option.splits sum.splits)
  then have cre_svc: "fst (NoteService_create db fault now rnds (Note_obj n)) \<noteq> Inl TypeError"
    if "length rnds = 16"
    using inst that by (auto simp: NoteService_create_def split: prod.splits sum.splits)
  have chain: "\<forall>v. (instanceof v Note_class \<longrightarrow> instanceof v NoteForUpdate_class)
          \<and> (instanceof v NoteForUpdate_class \<longrightarrow> instanceof v NoteForCreate_class)"
    by (auto simp: instanceof_Note_iff instanceof_NoteForUpdate_iff instanceof_NoteForCreate_iff)
  from inst upd svc cre cre_svc chain show ?thesis by blast
qed

theorem note_passes_type_checks_witness:
  "NoteDao_findById two_notes None (UuidV4_obj id_a) = Inr (Some note_a)
   \<and> instanceof (Note_obj note_a) NoteForUpdate_class
   \<and> instanceof (Note_obj note_a) NoteForCreate_class
   \<and> fst (NoteDao_update two_notes None 3 (Note_obj note_a)) \<noteq> Inl TypeError
   \<and> fst (NoteDao_create two_notes None 3 rnds_c (Note_obj note_a)) \<noteq> Inl TypeError"
proof -
  have "NoteDao_findById two_notes None (UuidV4_obj id_a) = Inr (Some note_a)" by code_simp
  moreover have "length rnds_c = 16" by (simp add: rnds_c_def)
  ultimately show ?thesis
    using note_passes_type_checks [of note_a two_notes None 3 no_faults rnds_c] by simp
qed





lemma find_via_filter: "find P xs = (case filter P xs of [] \<Rightarrow> None | x # ys \<Rightarrow> Some x)"
  by (induction xs) simp_all

lemma findById_other_rows:
  assumes "is_UuidV4 v" and "filter (\<lambda>r. col_id r = key_of v) db' = filter (\<lambda>r. col_id r = key_of v) db"
  shows "NoteDao_findById db' None (UuidV4_obj v) = NoteDao_findById db None (UuidV4_obj v)"
proof -
  have "find (\<lambda>r. col_id r = key_of v) db' = find (\<lambda>r. col_id r = key_of v) db"
    using assms(2) by (simp add: find_via_filter)
  then show ?thesis using assms(1) by (simp add: findById_run sql_select_by_id_def)
qed










section \<open>The operations keep the store well-formed\<close>

lemma db_ok_create:
  assumes "db_ok db" and "length rnds = 16"
  shows "db_ok (snd (NoteDao_create db fault now rnds note))"
proof -
  have "db_ok db'" if "sql_insert db now (set_v4_bits rnds) c = Inr db'" for c db'
    using assms(1) id_ok_generated [OF assms(2)] that by (rule db_ok_insert)
  then show ?thesis
    using assms
    by (auto simp: NoteDao_create_def new_UuidV4_uuidv4 parse_uuidv4
        split: option.splits sum.splits jsval.splits)
qed

lemma db_ok_dao_update: "db_ok db \<Longrightarrow> db_ok (snd (NoteDao_update db fault now note))"
  by (auto simp: NoteDao_update_def db_ok_update split: option.splits sum.splits jsval.splits)

lemma db_ok_dao_delete: "db_ok db \<Longrightarrow> db_ok (snd (NoteDao_deleteById db fault i))"
  by (auto simp: NoteDao_deleteById_def db_ok_delete split: option.splits sum.splits)

lemma db_ok_transaction:
  assumes "db_ok db" and "db_ok (snd (body db))"
  shows "db_ok (snd (transaction_immediate f body db))"
  using assms
  by (auto simp: transaction_immediate_def split: option.splits sum.splits prod.splits)

lemma db_ok_service_update: "db_ok db \<Longrightarrow> db_ok (snd (NoteService_update db f now note))"
proof -
  assume ok: "db_ok db"
  have "db_ok (snd (updateIfExists f now note db))"
    using ok db_ok_dao_update [OF ok, of "write_fault f" now "note"]
    by (auto simp: updateIfExists_def split: option.splits sum.splits prod.splits)
  with ok show ?thesis
    by (simp add: NoteService_update_def db_ok_transaction)
qed

lemma db_ok_service_delete: "db_ok db \<Longrightarrow> db_ok (snd (NoteService_deleteById db f i))"
proof -
  assume ok: "db_ok db"
  have "db_ok (snd (deleteIfExists f i db))"
    using ok db_ok_dao_delete [OF ok, of "write_fault f" i]
    by (auto simp: deleteIfExists_def split: option.splits sum.splits prod.splits)
  with ok show ?thesis
    by (simp add: NoteService_deleteById_def db_ok_transaction)
qed

section \<open>Listing pages\<close>

text \<open>
  C5.  \<open>list\<close>, in the storage layer and in the service, fails with a \<open>TypeError\<close>
  when \<open>pageSize\<close> is given and is not an integer, with a \<open>RangeError\<close> when it is an
  integer outside 1..100, and with a \<open>TypeError\<close> when \<open>pageSize\<close> is acceptable and
  \<open>afterId\<close> is given and is not an instance of \<open>UuidV4\<close>; the page size is checked
  first, so that an \<open>afterId\<close> of another kind always ends the call with one of the
  two errors.  The store and its faults are arbitrary in these statements: the errors do
  not depend on them.  An omitted \<open>pageSize\<close> behaves as 20.  A page that is returned
  for \<open>pageSize = n\<close> has at most \<open>n\<close> notes (and \<open>n\<close> is within 1..100), and on a store
  written by the operations, without a storage fault, a page is returned for every
  such \<open>n\<close>.
\<close>

theorem list_argument_checks:
  "(psize \<noteq> Undefined \<and> (\<forall>n. psize \<noteq> Number n) \<longrightarrow>
      NoteDao_list db fault psize afterId = Inl TypeError \<and>
      NoteService_list db fault psize afterId = Inl TypeError)
   \<and> (n < 1 \<or> 100 < n \<longrightarrow>
      NoteDao_list db fault (Number n) afterId = Inl RangeError \<and>
      NoteService_list db fault (Number n) afterId = Inl RangeError)
   \<and> ((psize = Undefined \<or> (\<exists>k. psize = Number k \<and> 1 \<le> k \<and> k \<le> 100)) \<and>
       afterId \<noteq> Undefined \<and> \<not> instanceof afterId UuidV4_class \<longrightarrow>
      NoteDao_list db fault psize afterId = Inl TypeError \<and>
      NoteService_list db fault psize afterId = Inl TypeError)
   \<and> NoteDao_list db fault Undefined afterId = NoteDao_list db fault (Number 20) afterId
   \<and> NoteService_list db fault Undefined afterId = NoteService_list db fault (Number 20) afterId
   \<and> (NoteDao_list db fault (Number n) afterId = Inr page \<longrightarrow>
        1 \<le> n \<and> n \<le> 100 \<and> length (notes page) \<le> nat n)
   \<and> (NoteService_list db fault (Number n) afterId = Inr page \<longrightarrow>
        1 \<le> n \<and> n \<le> 100 \<and> length (notes page) \<le> nat n)
   \<and> (db_ok db \<and> 1 \<le> n \<and> n \<le> 100 \<longrightarrow>
        (\<exists>p. NoteDao_list db None (Number n) Undefined = Inr p \<and> length (notes p) \<le> nat n))
   \<and> (afterId \<noteq> Undefined \<and> \<not> instanceof afterId UuidV4_class \<longrightarrow>
        NoteDao_list db fault psize afterId \<in> {Inl TypeError, Inl RangeError} \<and>
        NoteService_list db fault psize afterId \<in> {Inl TypeError, Inl RangeError})"
proof (intro conjI impI)
  assume "psize \<noteq> Undefined \<and> (\<forall>n. psize \<noteq> Number n)"
  then have "list_args psize afterId = Inl TypeError" by (simp add: list_args_not_integer)
  then show "NoteDao_list db fault psize afterId = Inl TypeError"
    and "NoteService_list db fault psize afterId = Inl TypeError"
    by (simp_all add: list_fails_on_bad_args)
next
  assume "n < 1 \<or> 100 < n"
  then have "list_args (Number n) afterId = Inl RangeError" by (rule list_args_out_of_range)
  then show "NoteDao_list db fault (Number n) afterId = Inl RangeError"
    and "NoteService_list db fault (Number n) afterId = Inl RangeError"
    by (simp_all add: list_fails_on_bad_args)
next
  assume "(psize = Undefined \<or> (\<exists>k. psize = Number k \<and> 1 \<le> k \<and> k \<le> 100)) \<and>
       afterId \<noteq> Undefined \<and> \<not> instanceof afterId UuidV4_class"
  then have "list_args psize afterId = Inl TypeError" by (simp add: list_args_bad_afterId)
  then show "NoteDao_list db fault psize afterId = Inl TypeError"
    and "NoteService_list db fault psize afterId = Inl TypeError"
    by (simp_all add: list_fails_on_bad_args)
next
  show "NoteDao_list db fault Undefined afterId = NoteDao_list db fault (Number 20) afterId"
    by (simp add: NoteDao_list_def list_args_default)
  show "NoteService_list db fault Undefined afterId = NoteService_list db fault (Number 20) afterId"
    by (simp add: NoteService_list_def list_args_default)
next
  assume "NoteDao_list db fault (Number n) afterId = Inr page"
  from NoteDao_list_Inr [OF this] list_args_Number_Inr
  show "1 \<le> n" and "n \<le> 100" and "length (notes page) \<le> nat n" by fastforce+
next
  assume "NoteService_list db fault (Number n) afterId = Inr page"
  from NoteService_list_Inr [OF this] list_args_Number_Inr
  show "1 \<le> n" and "n \<le> 100" and "length (notes page) \<le> nat n" by fastforce+
next
  assume a: "db_ok db \<and> 1 \<le> n \<and> n \<le> 100"
  then have "list_args (Number n) Undefined = Inr n"
    by (simp add: list_args_def MIN_PAGE_SIZE_def MAX_PAGE_SIZE_def)
  with a have "NoteDao_list db None (Number n) Undefined =
      Inr \<lparr>pageSize = n, notes = map note_of_row (sql_select_page db None n)\<rparr>"
    by (intro NoteDao_list_rows) simp_all
  then show "\<exists>p. NoteDao_list db None (Number n) Undefined = Inr p \<and> length (notes p) \<le> nat n"
    by (simp add: length_sql_select_page)
next
  assume "afterId \<noteq> Undefined \<and> \<not> instanceof afterId UuidV4_class"
  then have "list_args psize afterId = Inl TypeError \<or> list_args psize afterId = Inl RangeError"
    by (rule list_args_bad_afterId_any)
  then show "NoteDao_list db fault psize afterId \<in> {Inl TypeError, Inl RangeError}"
    and "NoteService_list db fault psize afterId \<in> {Inl TypeError, Inl RangeError}"
    using list_fails_on_bad_args [of psize afterId _ db fault] by auto
qed


theorem list_argument_checks_witness:
  "NoteDao_list two_notes None NonInteger Undefined = Inl TypeError
   \<and> NoteService_list two_notes None Null Undefined = Inl TypeError
   \<and> NoteDao_list two_notes None (Number 101) Undefined = Inl RangeError
   \<and> NoteService_list two_notes None (Number 0) Undefined = Inl RangeError
   \<and> NoteDao_list two_notes None (Number 1) (String ''abc'') = Inl TypeError
   \<and> NoteService_list two_notes None Undefined Null = Inl TypeError
   \<and> (\<exists>p. NoteDao_list two_notes None (Number 1) Undefined = Inr p \<and> length (notes p) \<le> 1)"
proof -
  have ok: "db_ok two_notes" by code_simp
  have no_inst: "\<not> instanceof (String ''abc'') UuidV4_class" "\<not> instanceof Null UuidV4_class"
    by code_simp+
  show ?thesis
    using list_argument_checks [of NonInteger two_notes None Undefined 101]
      list_argument_checks [of Null two_notes None Undefined 0]
      list_argument_checks [of "Number 1" two_notes None "String ''abc''" 1]
      list_argument_checks [of Undefined two_notes None Null 1]
      ok no_inst
    by simp
qed

text \<open>
  C2.  On a store written by the operations, without a storage fault, for every
  accepted \<open>pageSize\<close> (\<open>n\<close> is the bound: the argument, or 20 when it is omitted) and
  every \<open>afterId\<close> that is omitted or an instance of \<open>UuidV4\<close>, \<open>list\<close> returns a page
  whose \<open>pageSize\<close> field is \<open>n\<close> and whose notes are the first \<open>min n (number of
  eligible notes)\<close> of the eligible notes in page order: they are sorted by creation
  time descending and identifier bytes ascending, each is eligible, and each comes
  before every eligible note that is left out.  The eligible notes are all stored
  notes when \<open>afterId\<close> is omitted, and otherwise the stored notes except those whose
  identifier bytes are less than or equal to those of \<open>afterId\<close>.
\<close>

theorem list_page_contents:
  assumes ok: "db_ok db" and args: "list_args psize afterId = Inr n"
    and cur: "afterId = Undefined \<and> eligible = map note_of_row db
       \<or> (\<exists>u. afterId = UuidV4_obj u \<and> is_UuidV4 u
              \<and> eligible = filter (\<lambda>m. \<not> id_bytes m \<le> key_of u) (map note_of_row db))"
  shows "\<exists>page. NoteDao_list db None psize afterId = Inr page
      \<and> pageSize page = n \<and> (psize = Undefined \<longrightarrow> n = 20) \<and> (\<forall>m. psize = Number m \<longrightarrow> n = m)
      \<and> sorted_wrt listed_before (notes page)
      \<and> length (notes page) = min (nat n) (length eligible)
      \<and> set (notes page) \<subseteq> set eligible
      \<and> (\<forall>x\<in>set (notes page). \<forall>y\<in>set eligible - set (notes page). listed_before x y)"
proof -
  obtain cursor where c: "(if afterId = Undefined then Inr None
        else map_sum (\<lambda>e. e) Some (parse (value_of afterId))) = Inr cursor"
    and el: "eligible = map note_of_row
          (case cursor of None \<Rightarrow> db | Some a \<Rightarrow> filter (\<lambda>r. col_id r > a) db)"
  proof (cases "afterId = Undefined")
    case True
    with cur that [of None] show ?thesis by auto
  next
    case False
    with cur obtain u where u: "afterId = UuidV4_obj u" "is_UuidV4 u"
      "eligible = filter (\<lambda>m. \<not> id_bytes m \<le> key_of u) (map note_of_row db)"
      by auto
    from is_UuidV4_parse [OF u(2)] u(1)
    have "(if afterId = Undefined then Inr None
        else map_sum (\<lambda>e. e) Some (parse (value_of afterId))) = Inr (Some (key_of u))"
      by simp
    moreover have "eligible = map note_of_row (filter (\<lambda>r. col_id r > key_of u) db)"
      using u(3) eligible_rows [OF ok] by simp
    ultimately show ?thesis using that [of "Some (key_of u)"] by simp
  qed
  let ?F = "case cursor of None \<Rightarrow> db | Some a \<Rightarrow> filter (\<lambda>r. col_id r > a) db"
  let ?rows = "sql_select_page db cursor n"
  let ?page = "\<lparr>pageSize = n, notes = map note_of_row ?rows\<rparr>"
  have d: "distinct (map col_id db)" using ok by (simp add: db_ok_def)
  have F_db: "set ?F \<subseteq> set db" by (cases cursor) auto
  have rows_F: "set ?rows \<subseteq> set ?F" using page_rows(3) [OF d] .
  have run: "NoteDao_list db None psize afterId = Inr ?page"
    using ok args c by (rule NoteDao_list_rows)
  have size: "(psize = Undefined \<longrightarrow> n = 20) \<and> (\<forall>m. psize = Number m \<longrightarrow> n = m)"
    using args by (auto simp: list_args_def DEFAULT_PAGE_SIZE_def split: sum.splits if_splits)
  have "sorted_wrt (\<lambda>a b. page_key a < page_key b) ?rows"
    using page_rows(1) [OF d] .
  moreover have rows_ok: "\<forall>r\<in>set ?rows. id_ok (col_id r)"
    using rows_F F_db ok by (auto simp: db_ok_rows)
  ultimately have "sorted_wrt (\<lambda>a b. listed_before (note_of_row a) (note_of_row b)) ?rows"
    by (elim sorted_wrt_mono_rel [rotated]) (simp add: listed_before_rows)
  then have sorted: "sorted_wrt listed_before (notes ?page)"
    by (simp add: sorted_wrt_map)
  have len: "length (notes ?page) = min (nat n) (length eligible)"
    using page_rows(2) [OF d, of cursor n] by (simp add: el)
  have sub: "set (notes ?page) \<subseteq> set eligible"
    using rows_F by (auto simp: el)
  have rest: "\<forall>x\<in>set (notes ?page). \<forall>y\<in>set eligible - set (notes ?page). listed_before x y"
  proof (intro ballI)
    fix x y assume x: "x \<in> set (notes ?page)" and y: "y \<in> set eligible - set (notes ?page)"
    from x obtain r where r: "r \<in> set ?rows" "x = note_of_row r" by auto
    from y obtain r' where r': "r' \<in> set ?F" "y = note_of_row r'" "r' \<notin> set ?rows"
      by (auto simp: el)
    from page_rows(4) [OF d, of cursor n] r(1) r'(1,3) have "page_key r < page_key r'" by blast
    moreover have "id_ok (col_id r)" "id_ok (col_id r')"
      using r(1) r'(1) rows_F F_db ok by (auto simp: db_ok_rows)
    ultimately show "listed_before x y" by (simp add: r r' listed_before_rows)
  qed
  from run size sorted len sub rest show ?thesis
    by (intro exI [of _ ?page]) simp
qed


theorem list_page_contents_witness:
  "db_ok two_notes
   \<and> (\<exists>page. NoteDao_list two_notes None (Number 1) (UuidV4_obj id_a) = Inr page
        \<and> pageSize page = 1 \<and> length (notes page) = 1
        \<and> set (notes page) \<subseteq> set (filter (\<lambda>m. \<not> id_bytes m \<le> key_of id_a) (map note_of_row two_notes)))"
proof -
  have ok: "db_ok two_notes" by code_simp
  have args: "list_args (Number 1) (UuidV4_obj id_a) = Inr 1" by code_simp
  have valid: "is_UuidV4 id_a" by code_simp
  have len: "length (filter (\<lambda>m. \<not> id_bytes m \<le> key_of id_a) (map note_of_row two_notes)) = 1"
    by code_simp
  from list_page_contents [OF ok args, of "filter (\<lambda>m. \<not> id_bytes m \<le> key_of id_a) (map note_of_row two_notes)"]
    valid len ok
  show ?thesis by auto
qed



text \<open>
  C1 does not hold of the code.  With two notes created one after the other, the
  first with the smaller key: \<open>list(1)\<close> returns the second note, and \<open>list(1,
  afterId = its id)\<close> returns an empty page, although the first note is stored; it is
  never listed.  With three notes whose keys are in the order \<open>n1 < n0 < n2\<close>:
  \<open>list(2)\<close> returns \<open>n2, n1\<close> and \<open>list(2, afterId = id of n1)\<close> returns \<open>n2, n0\<close>:
  \<open>n2\<close> is listed twice.  The cursor compares identifier bytes, which are random,
  while the pages are ordered by creation time.
\<close>

theorem afterId_chaining_skips_and_repeats:
  "NoteDao_list two_notes None (Number 1) Undefined = Inr \<lparr>pageSize = 1, notes = [note_b]\<rparr>
   \<and> NoteDao_list two_notes None (Number 1) (UuidV4_obj id_b) = Inr \<lparr>pageSize = 1, notes = []\<rparr>
   \<and> NoteDao_findById two_notes None (UuidV4_obj id_a) = Inr (Some note_a)
   \<and> NoteDao_list three_notes None (Number 2) Undefined = Inr \<lparr>pageSize = 2, notes = [note_b3, note_c]\<rparr>
   \<and> NoteDao_list three_notes None (Number 2) (UuidV4_obj id_c) =
        Inr \<lparr>pageSize = 2, notes = [note_b3, note_a]\<rparr>"
  by code_simp


end
